theory Spec2Isabelle
  imports Complex_Main "HOL-Library.Multiset" "HOL-Library.Sublist"
begin

section \<open>HandyRL learner: a shallow embedding of \<open>train.py\<close>\<close>

text \<open>
  The definitions below follow \<open>src/train.py\<close> function by function. Python lists and
  deques are HOL lists (index 0 is the left end), Python integers are \<open>int\<close> (\<open>nat\<close>
  where the source can only produce a length or a \<open>randrange\<close> result), and every
  exception the modelled lines can raise is a value of \<open>py_error\<close> on the left of a sum.
  The floating-point numbers of the correction engine and of the win rate are read as
  real numbers; where a test or a stored value is a rounded result (the product of the
  entry service, the progress of a batch window) the floating-point operation is a
  parameter of the definition.
\<close>

datatype py_error = IndexError | ValueError | ZeroDivisionError | UnboundLocalError

subsection \<open>Episode store: \<open>Learner.feed_episodes\<close>\<close>

text \<open>
  \<^verbatim>\<open>
  def feed_episodes(self, episodes):
      self.trainer.episodes.extend([e for e in episodes if e is not None])
      while len(self.trainer.episodes) > self.args['maximum_episodes']:
          self.trainer.episodes.popleft()
  \<close>
  \<open>popleft\<close> on an empty deque raises \<open>IndexError\<close>; the loop reaches it only when
  \<open>maximum_episodes\<close> is negative.
\<close>

fun popleft_while :: "int \<Rightarrow> 'e list \<Rightarrow> py_error + 'e list" where
  "popleft_while maximum_episodes [] =
     (if int (length ([] :: 'e list)) > maximum_episodes then Inl IndexError else Inr [])"
| "popleft_while maximum_episodes (e # es) =
     (if int (length (e # es)) > maximum_episodes then popleft_while maximum_episodes es
      else Inr (e # es))"

definition not_none :: "'e option list \<Rightarrow> 'e list" where
  "not_none episodes = map the (filter (\<lambda>e. e \<noteq> None) episodes)"

definition feed_episodes :: "int \<Rightarrow> 'e list \<Rightarrow> 'e option list \<Rightarrow> py_error + 'e list" where
  "feed_episodes maximum_episodes store episodes =
     popleft_while maximum_episodes (store @ not_none episodes)"

text \<open>A sequence of \<open>episode\<close> requests, each handled by \<open>feed_episodes\<close>; an exception
  ends the run.\<close>

fun feed_all :: "int \<Rightarrow> 'e list \<Rightarrow> 'e option list list \<Rightarrow> py_error + 'e list" where
  "feed_all maximum_episodes store [] = Inr store"
| "feed_all maximum_episodes store (episodes # rest) =
     (case feed_episodes maximum_episodes store episodes of
        Inl err \<Rightarrow> Inl err
      | Inr store' \<Rightarrow> feed_all maximum_episodes store' rest)"

subsection \<open>Correction engine: \<open>vtrace_base\<close> and \<open>vtrace\<close>\<close>

text \<open>
  Every torch operation in \<open>vtrace_base\<close> and \<open>vtrace\<close> is elementwise along the batch
  axis, so the model fixes one batch entry. A tensor of shape \<open>(T, B, P)\<close> is a list over
  time of player vectors (\<open>vec\<close>), a tensor of shape \<open>(T, B, 1)\<close> a list of reals that
  broadcasts over the players (\<open>smul\<close>), and \<open>batch['return']\<close>, of shape \<open>(1, B, P)\<close>,
  one player vector. The network's outputs are inputs of the model: \<open>t_values\<close>, and the
  gathered log-probabilities \<open>sel_b\<close>, \<open>sel_t\<close> of the taken action under the behaviour and
  the target policy (before the multiplication by \<open>gmasks\<close>).
\<close>

type_synonym vec = "real list"

definition vadd :: "vec \<Rightarrow> vec \<Rightarrow> vec" where
  "vadd a b = map2 (+) a b"

definition vsub :: "vec \<Rightarrow> vec \<Rightarrow> vec" where
  "vsub a b = map2 (-) a b"

definition smul :: "real \<Rightarrow> vec \<Rightarrow> vec" where
  "smul g a = map ((*) g) a"

text \<open>\<open>torch.clamp(x, lo, hi)\<close>.\<close>

definition clamp :: "real \<Rightarrow> real \<Rightarrow> real \<Rightarrow> real" where
  "clamp x lo hi = min (max x lo) hi"

definition clip_rho_threshold :: real where
  "clip_rho_threshold = 1.0"

definition clip_c_threshold :: real where
  "clip_c_threshold = 1.0"

text \<open>
  \<^verbatim>\<open>-torch.stack([values_nograd[:, :, 1], values_nograd[:, :, 0]], dim=-1)\<close> at one time
  step; it is used only when the player axis has size 2.
\<close>

definition opponent :: "vec \<Rightarrow> vec" where
  "opponent v = [- (v ! 1), - (v ! 0)]"

text \<open>
  \<^verbatim>\<open>
  log_selected_b_policies = F.log_softmax(batch['policy'], dim=-1).gather(-1, actions) * gmasks
  log_selected_t_policies = F.log_softmax(t_policies     , dim=-1).gather(-1, actions) * gmasks
  log_rhos = log_selected_t_policies.detach() - log_selected_b_policies
  rhos = torch.exp(log_rhos)
  clipped_rhos = torch.clamp(rhos, 0, clip_rho_threshold)
  cs = torch.clamp(rhos, 0, clip_c_threshold)
  values_nograd = t_values.detach()
  if values_nograd.size(2) == 2:  # two player zerosum game
      values_nograd_opponent = -torch.stack([values_nograd[:, :, 1], values_nograd[:, :, 0]], dim=-1)
      if args['observation']:
          values_nograd = (values_nograd + values_nograd_opponent) / 2
      else:
          values_nograd = values_nograd + values_nograd_opponent
  values_nograd = values_nograd * gmasks + batch['return'] * (1 - gmasks)
  \<close>
  The size of the player axis is read from \<open>returns\<close>, which shares it with \<open>t_values\<close>.
  The result is \<open>(values_nograd, clipped_rhos, cs)\<close>.
\<close>

definition vtrace_base ::
  "bool \<Rightarrow> vec list \<Rightarrow> real list \<Rightarrow> real list \<Rightarrow> real list \<Rightarrow> vec
     \<Rightarrow> vec list \<times> real list \<times> real list" where
  "vtrace_base observation t_values sel_b sel_t gmasks returns =
     (let log_selected_b_policies = map2 (*) sel_b gmasks;
          log_selected_t_policies = map2 (*) sel_t gmasks;
          log_rhos = map2 (-) log_selected_t_policies log_selected_b_policies;
          rhos = map exp log_rhos;
          clipped_rhos = map (\<lambda>r. clamp r 0 clip_rho_threshold) rhos;
          cs = map (\<lambda>r. clamp r 0 clip_c_threshold) rhos;
          values_nograd = t_values;
          values_nograd =
            (if length returns = 2 then
               (if observation
                then map (\<lambda>v. smul (1 / 2) (vadd v (opponent v))) values_nograd
                else map (\<lambda>v. vadd v (opponent v)) values_nograd)
             else values_nograd);
          values_nograd = map2 (\<lambda>v g. vadd (smul g v) (smul (1 - g) returns)) values_nograd gmasks
      in (values_nograd, clipped_rhos, cs))"

text \<open>
  The bodies of the two backward loops of \<open>vtrace\<close>; the deque is a list, \<open>appendleft\<close> is
  \<open>#\<close> and \<open>dq[0]\<close> is \<open>hd\<close> (the deque is never empty).
  \<^verbatim>\<open>
  vs_minus_v_xs.appendleft(deltas[i] + cs[i] * vs_minus_v_xs[0])
  lambda_returns.appendleft((1 - lmb) * values_nograd[i] + lmb * lambda_returns[0])
  \<close>
\<close>

definition td0_step :: "vec list \<Rightarrow> real list \<Rightarrow> nat \<Rightarrow> vec list \<Rightarrow> vec list" where
  "td0_step deltas cs i vs_minus_v_xs =
     vadd (deltas ! i) (smul (cs ! i) (hd vs_minus_v_xs)) # vs_minus_v_xs"

definition lmb :: real where "lmb = 0.7"

definition lambda_step :: "vec list \<Rightarrow> nat \<Rightarrow> vec list \<Rightarrow> vec list" where
  "lambda_step values_nograd i lambda_returns =
     vadd (smul (1 - lmb) (values_nograd ! i)) (smul lmb (hd lambda_returns)) # lambda_returns"

text \<open>
  \<open>vtrace\<close> up to its call of \<open>compose_losses\<close>: the result is the pair
  \<open>(value_targets, advantages)\<close> handed to the loss. \<open>range(time_length - 2, -1, -1)\<close> is
  \<open>rev [0..<time_length - 1]\<close> and \<open>range(time_length - 1, 0, -1)\<close> is
  \<open>rev [1..<time_length]\<close>; \<open>deltas[-1]\<close> raises \<open>IndexError\<close> on an empty tensor, and a
  configuration string other than the three below leaves \<open>advantages\<close> unbound.
  \<^verbatim>\<open>
  if args['return'] == 'MC':
      value_targets = returns
      advantages = clipped_rhos * (returns - values_nograd)
  elif args['return'] == 'TD0':
      values_t_plus_1 = torch.cat([values_nograd[1:], returns])
      deltas = clipped_rhos * (values_t_plus_1 - values_nograd)
      vs_minus_v_xs = deque([deltas[-1]])
      for i in range(time_length - 2, -1, -1):
          vs_minus_v_xs.appendleft(deltas[i] + cs[i] * vs_minus_v_xs[0])
      vs_minus_v_xs = torch.stack(tuple(vs_minus_v_xs))
      vs = vs_minus_v_xs + values_nograd
      value_targets = vs
      vs_t_plus_1 = torch.cat([vs[1:], returns])
      advantages = clipped_rhos * (vs_t_plus_1 - values_nograd)
  elif args['return'] == 'TDLAMBDA':
      lmb = 0.7
      lambda_returns = deque([returns[-1]])
      for i in range(time_length - 1, 0, -1):
          lambda_returns.appendleft((1 - lmb) * values_nograd[i] + lmb * lambda_returns[0])
      lambda_returns = torch.stack(tuple(lambda_returns))
      value_targets = lambda_returns
      advantages = clipped_rhos * (value_targets - values_nograd)
  \<close>
\<close>

definition vtrace ::
  "string \<Rightarrow> bool \<Rightarrow> nat \<Rightarrow> vec list \<Rightarrow> real list \<Rightarrow> real list \<Rightarrow> real list \<Rightarrow> vec
     \<Rightarrow> py_error + (vec list \<times> vec list)" where
  "vtrace return_arg observation time_length t_values sel_b sel_t gmasks returns =
     (let (values_nograd, clipped_rhos, cs) =
            vtrace_base observation t_values sel_b sel_t gmasks returns
      in if return_arg = ''MC'' then
           Inr ([returns], map2 (\<lambda>r v. smul r (vsub returns v)) clipped_rhos values_nograd)
         else if return_arg = ''TD0'' then
           (let values_t_plus_1 = tl values_nograd @ [returns];
                deltas = map2 smul clipped_rhos (map2 vsub values_t_plus_1 values_nograd)
            in if deltas = [] then Inl IndexError
               else
                 (let vs_minus_v_xs = fold (td0_step deltas cs) (rev [0..<time_length - 1]) [last deltas];
                      vs = map2 vadd vs_minus_v_xs values_nograd;
                      value_targets = vs;
                      vs_t_plus_1 = tl vs @ [returns];
                      advantages = map2 smul clipped_rhos (map2 vsub vs_t_plus_1 values_nograd)
                  in Inr (value_targets, advantages)))
         else if return_arg = ''TDLAMBDA'' then
           (let lambda_returns = fold (lambda_step values_nograd) (rev [1..<time_length]) [returns];
                value_targets = lambda_returns;
                advantages = map2 smul clipped_rhos (map2 vsub value_targets values_nograd)
            in Inr (value_targets, advantages))
         else Inl UnboundLocalError)"

subsection \<open>Randomness\<close>




subsection \<open>Batch assembly: the windowing of \<open>make_batch\<close>\<close>






subsection \<open>Evaluation results: \<open>Learner.feed_results\<close> and the win rate of \<open>Learner.update\<close>\<close>

text \<open>
  \<open>self.results\<close> maps a model era to a dictionary from outcome to count. The inner
  dictionary keeps its insertion order, so it is an association list with distinct keys.
  \<^verbatim>\<open>
  def feed_results(self, results):
      for model_id, reward in results:
          if reward is None:
              continue
          if model_id not in self.results:
              self.results[model_id] = {}
          if reward not in self.results[model_id]:
              self.results[model_id][reward] = 0
          self.results[model_id][reward] += 1
  \<close>
\<close>

type_synonym histogram = "(real \<times> nat) list"

definition count_result :: "histogram \<Rightarrow> real \<Rightarrow> histogram" where
  "count_result distribution reward =
     (let distribution =
            (if reward \<notin> set (map fst distribution) then distribution @ [(reward, 0)]
             else distribution)
      in map (\<lambda>(k, cnt). if k = reward then (k, cnt + 1) else (k, cnt)) distribution)"

fun feed_results ::
  "(int \<rightharpoonup> histogram) \<Rightarrow> (int \<times> real option) list \<Rightarrow> (int \<rightharpoonup> histogram)" where
  "feed_results res [] = res"
| "feed_results res ((model_id, reward) # rest) =
     (case reward of
        None \<Rightarrow> feed_results res rest
      | Some rw \<Rightarrow>
          (let res = (if res model_id = None then res(model_id \<mapsto> []) else res)
           in feed_results (res(model_id \<mapsto> count_result (the (res model_id)) rw)) rest))"

text \<open>
  The first part of \<open>Learner.update\<close>; the result is what is printed: \<open>None\<close> for
  \<open>win rate = Nan (0)\<close>, and otherwise \<open>(win / n, win, n)\<close>. \<open>win / n\<close> raises
  \<open>ZeroDivisionError\<close> for \<open>n = 0\<close>.
  \<^verbatim>\<open>
  if self.model_era not in self.results:
      print('win rate = Nan (0)')
  else:
      distribution = self.results[self.model_era]
      results = {k: distribution[k] for k in sorted(distribution.keys(), reverse=True)}
      n, win = 0, 0.0
      for r, cnt in results.items():
          n += cnt
          win += (r + 1) / 2 * cnt
      print('win rate = %.3f (%.1f / %d)' % (win / n, win, n))
  \<close>
\<close>

definition win_rate_report ::
  "(int \<rightharpoonup> histogram) \<Rightarrow> int \<Rightarrow> py_error + (real \<times> real \<times> nat) option" where
  "win_rate_report res era =
     (case res era of
        None \<Rightarrow> Inr None
      | Some distribution \<Rightarrow>
          (let sorted_results =
                 map (\<lambda>k. (k, the (map_of distribution k))) (rev (sort (map fst distribution)));
               (n, win) =
                 fold (\<lambda>(r, cnt) (n, win). (n + cnt, win + (r + 1) / 2 * real cnt))
                      sorted_results (0, 0)
           in if n = 0 then Inl ZeroDivisionError else Inr (Some (win / real n, win, n))))"


subsection \<open>Model files: \<open>Learner.model_path\<close>\<close>

text \<open>
  \<^verbatim>\<open>
  def model_path(self, model_id):
      return os.path.join('models', str(model_id) + '.pth')
  \<close>
  \<open>str_int\<close> is Python's \<open>str\<close> on an integer (decimal digits, a leading minus sign for a
  negative number); the path separator is \<open>/\<close>.
\<close>

definition digit_char :: "nat \<Rightarrow> char" where
  "digit_char d = ''0123456789'' ! d"

function str_nat :: "nat \<Rightarrow> string" where
  "str_nat n = (if n < 10 then [digit_char n] else str_nat (n div 10) @ [digit_char (n mod 10)])"
  by pat_completeness auto
termination
  by (relation "measure (\<lambda>n. n)") auto

definition str_int :: "int \<Rightarrow> string" where
  "str_int i = (if i < 0 then ''-'' @ str_nat (nat (- i)) else str_nat (nat i))"

definition model_path :: "int \<Rightarrow> string" where
  "model_path model_id = ''models'' @ ''/'' @ (str_int model_id @ ''.pth'')"

subsection \<open>The learner and the trainer\<close>

text \<open>
  The fields of \<open>Learner\<close> and \<open>Trainer\<close> that the modelled methods read or write.
  \<open>'m\<close> is the type of models, \<open>'sd\<close> the type of their state dictionaries, \<open>'e\<close> the
  type of episodes. \<open>files\<close> is the content of the directory \<open>models\<close>, by path:
  \<open>torch.save\<close> writes it, \<open>torch.load\<close> reads it and raises when the path has no file.
  The functions \<open>state_dict\<close> (\<open>model.state_dict()\<close>) and \<open>load_state_dict\<close> (the effect
  of \<open>model.load_state_dict(sd)\<close> on a new instance, \<open>None\<close> when it raises) are
  parameters, and so is the new instance \<open>fresh\<close> that \<open>self.model_class(self.env, self.args)\<close>
  returns.
\<close>

record ('m, 'sd) learner =
  model_era :: int
  model :: 'm
  results :: "int \<rightharpoonup> histogram"
  files :: "string \<rightharpoonup> 'sd"

record ('e, 'm) trainer =
  episodes :: "'e list"
  update_flag :: bool
  updated_model :: "'m option \<times> int"
  steps :: int

text \<open>
  \<^verbatim>\<open>
  def update_model(self, model, steps):
      print('updated model(%d)' % steps)
      self.model_era += 1
      self.model = model
      os.makedirs('models', exist_ok=True)
      torch.save(model.state_dict(), self.model_path(self.model_era))
  \<close>
\<close>

definition update_model ::
  "('m \<Rightarrow> 'sd) \<Rightarrow> ('m, 'sd) learner \<Rightarrow> 'm \<Rightarrow> int \<Rightarrow> ('m, 'sd) learner" where
  "update_model state_dict s new_model new_steps =
     (let s = s\<lparr>model_era := model_era s + 1\<rparr>;
          s = s\<lparr>model := new_model\<rparr>
      in s\<lparr>files := (files s)(model_path (model_era s) \<mapsto> state_dict new_model)\<rparr>)"

text \<open>A run of successive calls of \<open>update_model\<close>, with the models and step counts handed
  to them.\<close>

fun update_models ::
  "('m \<Rightarrow> 'sd) \<Rightarrow> ('m, 'sd) learner \<Rightarrow> ('m \<times> int) list \<Rightarrow> ('m, 'sd) learner" where
  "update_models state_dict s [] = s"
| "update_models state_dict s ((new_model, new_steps) # rest) =
     update_models state_dict (update_model state_dict s new_model new_steps) rest"

text \<open>
  \<open>Trainer.update\<close> is called by the learner's thread; the training thread answers through
  \<open>report_update\<close>. The model runs the polling loop of \<open>update\<close> on a list of events, one
  per iteration: \<open>Some (model, steps)\<close> when the training thread has called
  \<open>report_update(model, steps)\<close> since the last poll, \<open>None\<close> when it has not. The loop
  has no bound: \<open>None\<close> as the result of \<open>wait_update\<close> says that it is still polling when
  the events end.
  \<^verbatim>\<open>
  def update(self):
      if len(self.episodes) < self.args['minimum_episodes']:
          return None, 0  # return None before training
      self.update_flag = True
      while True:
          time.sleep(0.1)
          model, steps = self.recheck_update()
          if model is not None:
              break
      return model, steps

  def report_update(self, model, steps):
      self.lock.acquire()
      self.update_flag = False
      self.updated_model = model, steps
      self.lock.release()

  def recheck_update(self):
      self.lock.acquire()
      flag = self.update_flag
      self.lock.release()
      return (None, -1) if flag else self.updated_model
  \<close>
\<close>

definition report_update :: "('e, 'm) trainer \<Rightarrow> 'm option \<Rightarrow> int \<Rightarrow> ('e, 'm) trainer" where
  "report_update tr new_model new_steps =
     tr\<lparr>update_flag := False, updated_model := (new_model, new_steps)\<rparr>"

definition recheck_update :: "('e, 'm) trainer \<Rightarrow> 'm option \<times> int" where
  "recheck_update tr = (if update_flag tr then (None, - 1) else updated_model tr)"

fun wait_update ::
  "('e, 'm) trainer \<Rightarrow> ('m option \<times> int) option list
     \<Rightarrow> (('m option \<times> int) \<times> ('e, 'm) trainer) option" where
  "wait_update tr [] = None"
| "wait_update tr (ev # evs) =
     (let tr = (case ev of None \<Rightarrow> tr | Some (m, k) \<Rightarrow> report_update tr m k);
          (m, k) = recheck_update tr
      in if m \<noteq> None then Some ((m, k), tr) else wait_update tr evs)"

definition trainer_update ::
  "int \<Rightarrow> ('e, 'm) trainer \<Rightarrow> ('m option \<times> int) option list
     \<Rightarrow> (('m option \<times> int) \<times> ('e, 'm) trainer) option" where
  "trainer_update minimum_episodes tr evs =
     (if int (length (episodes tr)) < minimum_episodes then Some ((None, 0), tr)
      else wait_update (tr\<lparr>update_flag := True\<rparr>) evs)"

text \<open>
  \<open>Learner.update\<close>: the win rate is printed, then
  \<^verbatim>\<open>
  model, steps = self.trainer.update()
  if model is None:
      model = self.model
  self.update_model(model, steps)
  \<close>
  The result is \<open>None\<close> while \<open>Trainer.update\<close> has not returned, an error when the
  printing raised, and otherwise the printed win rate with the new learner and trainer.
\<close>

definition learner_update ::
  "('m \<Rightarrow> 'sd) \<Rightarrow> int \<Rightarrow> ('m, 'sd) learner \<Rightarrow> ('e, 'm) trainer
     \<Rightarrow> ('m option \<times> int) option list
     \<Rightarrow> (py_error + ((real \<times> real \<times> nat) option \<times> ('m, 'sd) learner \<times> ('e, 'm) trainer)) option"
  where
  "learner_update state_dict minimum_episodes s tr evs =
     (case win_rate_report (results s) (model_era s) of
        Inl err \<Rightarrow> Some (Inl err)
      | Inr printed \<Rightarrow>
          (case trainer_update minimum_episodes tr evs of
             None \<Rightarrow> None
           | Some ((m, k), tr') \<Rightarrow>
               (let m = (case m of None \<Rightarrow> model s | Some new_model \<Rightarrow> new_model)
                in Some (Inr (printed, update_model state_dict s m k, tr')))))"

text \<open>
  Successive calls of \<open>Learner.update\<close>, one per list of events, with nothing else
  touching the learner or the trainer in between; the run stops where a call raises or
  does not return.
\<close>

fun learner_updates ::
  "('m \<Rightarrow> 'sd) \<Rightarrow> int \<Rightarrow> ('m, 'sd) learner \<Rightarrow> ('e, 'm) trainer
     \<Rightarrow> ('m option \<times> int) option list list
     \<Rightarrow> (py_error + (('m, 'sd) learner \<times> ('e, 'm) trainer)) option" where
  "learner_updates state_dict minimum_episodes s tr [] = Some (Inr (s, tr))"
| "learner_updates state_dict minimum_episodes s tr (evs # rest) =
     (case learner_update state_dict minimum_episodes s tr evs of
        None \<Rightarrow> None
      | Some (Inl err) \<Rightarrow> Some (Inl err)
      | Some (Inr (printed, s', tr')) \<Rightarrow>
          learner_updates state_dict minimum_episodes s' tr' rest)"

text \<open>
  The \<open>model\<close> request of \<open>Learner.server\<close>, for one requested era and for the list of a
  request:
  \<^verbatim>\<open>
  for model_id in data:
      if model_id == self.model_era:
          model = self.model
      else:
          try:
              model = self.model_class(self.env, self.args)
              model.load_state_dict(torch.load(self.model_path(model_id)))
          except:
              # return latest model if failed to load specified model
              pass
      send_data.append(model)
  \<close>
  The constructor has already run with the same arguments in \<open>Learner.__init__\<close>, so it is
  taken to succeed here: \<open>model\<close> is bound to the new instance before \<open>torch.load\<close> or
  \<open>load_state_dict\<close> can raise, and the bare \<open>except\<close> leaves that binding in place.
\<close>

definition fetch_model ::
  "'m \<Rightarrow> ('m \<Rightarrow> 'sd \<Rightarrow> 'm option) \<Rightarrow> ('m, 'sd) learner \<Rightarrow> int \<Rightarrow> 'm" where
  "fetch_model fresh load_state_dict s model_id =
     (if model_id = model_era s then model s
      else
        (case files s (model_path model_id) of
           None \<Rightarrow> fresh
         | Some sd \<Rightarrow> (case load_state_dict fresh sd of None \<Rightarrow> fresh | Some m \<Rightarrow> m)))"

definition server_model ::
  "'m \<Rightarrow> ('m \<Rightarrow> 'sd \<Rightarrow> 'm option) \<Rightarrow> ('m, 'sd) learner \<Rightarrow> int list \<Rightarrow> 'm list" where
  "server_model fresh load_state_dict s data = map (fetch_model fresh load_state_dict s) data"

declare str_nat.simps [simp del]

subsection \<open>Entry service: \<open>Learner.entry_server\<close>\<close>

text \<open>
  The state of the loop of \<open>entry_server\<close> and what it does for one accepted connection:
  \<open>divide_worker\<close> is the body of the inner loop, and \<open>entry_handshake\<close> returns
  \<open>(gids, eids)\<close>, the role lists sent back, with the new state.
  \<^verbatim>\<open>
  total_gids, total_eids, worker_cnt = [], [], 0
  ...
  gids, eids = [], []
  for _ in range(entry_args['num_process']):
      if len(total_gids) * self.args['eworker_rate'] < len(total_eids) - 1:
          gids.append(worker_cnt)
          total_gids.append(worker_cnt)
      else:
          eids.append(worker_cnt)
          total_eids.append(worker_cnt)
      worker_cnt += 1
  \<close>
  \<open>len(total_gids) * self.args['eworker_rate']\<close> is a floating-point product when the
  rate is a float: Python converts the count (exactly) and rounds the product to a double.
  The rounding is not modelled: the product is the parameter \<open>mul\<close>, which takes the
  count and the rate to the number Python computes, and everything proved below holds for
  every such function. The comparison of that number with the integer
  \<open>len(total_eids) - 1\<close> is exact in Python.
\<close>

record entry_state =
  total_gids :: "nat list"
  total_eids :: "nat list"
  worker_cnt :: nat

definition divide_worker ::
  "(real \<Rightarrow> real \<Rightarrow> real) \<Rightarrow> real
     \<Rightarrow> nat list \<times> nat list \<times> entry_state \<Rightarrow> nat list \<times> nat list \<times> entry_state" where
  "divide_worker mul eworker_rate = (\<lambda>(gids, eids, st).
     if mul (real (length (total_gids st))) eworker_rate
          < real_of_int (int (length (total_eids st)) - 1)
     then (gids @ [worker_cnt st], eids,
           st\<lparr>total_gids := total_gids st @ [worker_cnt st], worker_cnt := worker_cnt st + 1\<rparr>)
     else (gids, eids @ [worker_cnt st],
           st\<lparr>total_eids := total_eids st @ [worker_cnt st], worker_cnt := worker_cnt st + 1\<rparr>))"

definition entry_handshake ::
  "(real \<Rightarrow> real \<Rightarrow> real) \<Rightarrow> real \<Rightarrow> int \<Rightarrow> entry_state
     \<Rightarrow> nat list \<times> nat list \<times> entry_state" where
  "entry_handshake mul eworker_rate num_process st =
     (divide_worker mul eworker_rate ^^ nat num_process) ([], [], st)"

definition entry_init :: entry_state where
  "entry_init = \<lparr>total_gids = [], total_eids = [], worker_cnt = 0\<rparr>"

section \<open>Properties\<close>

subsection \<open>Episode store\<close>

lemma popleft_while_drop:
  "0 \<le> m \<Longrightarrow> popleft_while m xs = Inr (drop (length xs - nat m) xs)"
proof (induction xs)
  case Nil
  then show ?case by simp
next
  case (Cons x xs)
  show ?case
  proof (cases "int (length (x # xs)) > m")
    case True
    with Cons.prems have "length (x # xs) - nat m = Suc (length xs - nat m)"
      by auto
    with True Cons show ?thesis by simp
  next
    case False
    then have "length (x # xs) - nat m = 0" by auto
    with False show ?thesis by simp
  qed
qed

lemma feed_episodes_drop:
  "0 \<le> m \<Longrightarrow>
   feed_episodes m store eps =
     Inr (drop (length (store @ not_none eps) - nat m) (store @ not_none eps))"
  unfolding feed_episodes_def by (rule popleft_while_drop)

lemma drop_excess_append:
  "drop (length (drop (length xs - k) xs @ ys) - k) (drop (length xs - k) xs @ ys) =
   drop (length (xs @ ys) - k) (xs @ ys)"
proof (cases "length xs \<le> k")
  case True
  then show ?thesis by simp
next
  case False
  then have "length (drop (length xs - k) xs) = k" by simp
  with False show ?thesis by (simp add: add.commute)
qed

lemma feed_all_drop:
  "0 \<le> m \<Longrightarrow> batches \<noteq> [] \<Longrightarrow>
   feed_all m store batches =
     Inr (drop (length (store @ concat (map not_none batches)) - nat m)
            (store @ concat (map not_none batches)))"
proof (induction batches arbitrary: store)
  case Nil
  then show ?case by simp
next
  case (Cons b bs)
  let ?s1 = "drop (length (store @ not_none b) - nat m) (store @ not_none b)"
  have step: "feed_episodes m store b = Inr ?s1"
    using Cons.prems(1) by (rule feed_episodes_drop)
  show ?case
  proof (cases "bs = []")
    case True
    with step show ?thesis by simp
  next
    case False
    have "feed_all m store (b # bs) = feed_all m ?s1 bs"
      using step by simp
    also have "\<dots> = Inr (drop (length (?s1 @ concat (map not_none bs)) - nat m)
                           (?s1 @ concat (map not_none bs)))"
      using Cons.IH [OF Cons.prems(1) False] .
    also have "\<dots> = Inr (drop (length ((store @ not_none b) @ concat (map not_none bs)) - nat m)
                           ((store @ not_none b) @ concat (map not_none bs)))"
      by (simp only: drop_excess_append)
    finally show ?thesis by simp
  qed
qed

text \<open>
  C5. For a non-negative \<open>maximum_episodes\<close>, after every non-empty sequence of
  \<open>feed_episodes\<close> calls (so after each admit of any run) the store holds at most
  \<open>maximum_episodes\<close> episodes, and it is exactly what is left of the old store followed
  by all admitted non-null episodes after dropping from the oldest (left) end: a suffix
  whose order and content are untouched.
\<close>

theorem feed_episodes_bounded_suffix:
  assumes "0 \<le> maximum_episodes" and "batches \<noteq> []"
  shows "\<exists>store'. feed_all maximum_episodes store batches = Inr store'
           \<and> int (length store') \<le> maximum_episodes
           \<and> suffix store' (store @ concat (map not_none batches))
           \<and> store' = drop (length (store @ concat (map not_none batches)) - nat maximum_episodes)
                         (store @ concat (map not_none batches))"
proof -
  let ?all = "store @ concat (map not_none batches)"
  let ?s = "drop (length ?all - nat maximum_episodes) ?all"
  have "feed_all maximum_episodes store batches = Inr ?s"
    using assms by (rule feed_all_drop)
  moreover have "int (length ?s) \<le> maximum_episodes"
    using assms(1) by auto
  moreover have "suffix ?s ?all"
    by (rule suffix_drop)
  ultimately show ?thesis by blast
qed

theorem feed_episodes_bounded_suffix_witness:
  "feed_all 2 [1 :: nat] [[Some 2, None], [Some 3, Some 4]] = Inr [3, 4]
   \<and> feed_all 2 [1 :: nat] [[Some 2, None]] = Inr [1, 2]"
  using feed_episodes_bounded_suffix [of 2 "[[Some 2, None], [Some 3, Some 4]]" "[1 :: nat]"]
        feed_episodes_bounded_suffix [of 2 "[[Some 2, None]]" "[1 :: nat]"]
  by (simp add: not_none_def)

subsection \<open>Correction engine\<close>

lemma length_vadd: "length (vadd a b) = min (length a) (length b)"
  by (simp add: vadd_def)

lemma length_vsub: "length (vsub a b) = min (length a) (length b)"
  by (simp add: vsub_def)

lemma length_smul: "length (smul g a) = length a"
  by (simp add: smul_def)

lemma nth_vadd: "p < length a \<Longrightarrow> p < length b \<Longrightarrow> vadd a b ! p = a ! p + b ! p"
  by (simp add: vadd_def)

lemma nth_vsub: "p < length a \<Longrightarrow> p < length b \<Longrightarrow> vsub a b ! p = a ! p - b ! p"
  by (simp add: vsub_def)

lemma nth_smul: "p < length a \<Longrightarrow> smul g a ! p = g * a ! p"
  by (simp add: smul_def)

lemma nth_shifted:
  "t < length xs \<Longrightarrow> (tl xs @ [r]) ! t = (if Suc t < length xs then xs ! Suc t else r)"
  by (cases xs) (auto simp: nth_append)

lemma fold_rev_upt_cons:
  assumes step: "\<And>i dq. f i dq = g i (hd dq) # dq"
  shows "length (fold f (rev [0..<n]) (a # acc)) = n + length (a # acc)
       \<and> drop n (fold f (rev [0..<n]) (a # acc)) = a # acc
       \<and> (\<forall>i<n. fold f (rev [0..<n]) (a # acc) ! i = g i (fold f (rev [0..<n]) (a # acc) ! Suc i))"
proof (induction n arbitrary: a acc)
  case 0
  show ?case by simp
next
  case (Suc n)
  let ?r = "fold f (rev [0..<n]) (g n a # a # acc)"
  have unf: "fold f (rev [0..<Suc n]) (a # acc) = ?r"
    by (simp add: step)
  from Suc.IH [of "g n a" "a # acc"]
  have len: "length ?r = n + length (g n a # a # acc)"
    and dr: "drop n ?r = g n a # a # acc"
    and rec: "\<forall>i<n. ?r ! i = g i (?r ! Suc i)"
    by blast+
  have n0: "?r ! n = g n a"
    using dr len by (metis Cons_nth_drop_Suc drop_eq_Nil leD list.inject list.simps(3) not_less)
  have dr1: "drop (Suc n) ?r = a # acc"
    using dr by (metis drop_Suc list.sel(3) tl_drop)
  have n1: "?r ! Suc n = a"
    using dr1 len by (metis Cons_nth_drop_Suc drop_eq_Nil list.inject list.simps(3) not_less)
  have "\<forall>i<Suc n. ?r ! i = g i (?r ! Suc i)"
    using rec n0 n1 by (auto simp: less_Suc_eq)
  with len dr1 show ?case unfolding unf by simp
qed


lemma vtrace_base_rho:
  assumes "length sel_b = T" "length sel_t = T" "length gmasks = T"
    and "vtrace_base observation t_values sel_b sel_t gmasks returns = (vals, rho, c)"
  shows "length rho = T \<and> length c = T
       \<and> (\<forall>t<T. rho ! t = min (exp (sel_t ! t * gmasks ! t - sel_b ! t * gmasks ! t)) 1
                \<and> c ! t = rho ! t)"
proof -
  have pos: "max (exp x) 0 = exp x" for x :: real
    by (simp add: max_def)
  from assms(4) have
    rho: "rho = map (\<lambda>r. clamp r 0 clip_rho_threshold)
                 (map exp (map2 (-) (map2 (*) sel_t gmasks) (map2 (*) sel_b gmasks)))"
    and c: "c = map (\<lambda>r. clamp r 0 clip_c_threshold)
                 (map exp (map2 (-) (map2 (*) sel_t gmasks) (map2 (*) sel_b gmasks)))"
    by (auto simp: vtrace_base_def Let_def)
  show ?thesis
    using assms(1-3)
    by (simp add: rho c clamp_def clip_rho_threshold_def clip_c_threshold_def pos)
qed

lemma vtrace_base_values:
  assumes "length t_values = T" "length gmasks = T"
    and "\<forall>v\<in>set t_values. length v = P" "length returns = P"
    and "vtrace_base observation t_values sel_b sel_t gmasks returns = (vals, rho, c)"
  shows "length vals = T \<and> (\<forall>t<T. length (vals ! t) = P)"
proof -
  define merged where "merged =
    (if length returns = 2 then
       (if observation
        then map (\<lambda>v. smul (1 / 2) (vadd v (opponent v))) t_values
        else map (\<lambda>v. vadd v (opponent v)) t_values)
     else t_values)"
  have vals: "vals = map2 (\<lambda>v g. vadd (smul g v) (smul (1 - g) returns)) merged gmasks"
    using assms(5) by (simp add: vtrace_base_def Let_def merged_def)
  have lm: "length merged = T"
    using assms(1) by (simp add: merged_def)
  have "length (merged ! t) = P" if "t < T" for t
  proof -
    have "length (t_values ! t) = P"
      using assms(1,3) that by simp
    then show ?thesis
      using that assms(1,4)
      by (auto simp: merged_def length_vadd length_smul opponent_def)
  qed
  then show ?thesis
    using lm assms(2,4) by (simp add: vals length_vadd length_smul)
qed


lemma vtrace_td0_unfold:
  assumes "vtrace_base observation t_values sel_b sel_t gmasks returns = (vals, rho, c)"
    and "deltas = map2 smul rho (map2 vsub (tl vals @ [returns]) vals)"
    and "deltas \<noteq> []"
    and "vsm = fold (td0_step deltas c) (rev [0..<T - 1]) [last deltas]"
  shows "vtrace ''TD0'' observation T t_values sel_b sel_t gmasks returns =
           Inr (map2 vadd vsm vals,
                map2 smul rho (map2 vsub (tl (map2 vadd vsm vals) @ [returns]) vals))"
  using assms by (simp add: vtrace_def Let_def)

lemma td0_loop_rows:
  assumes "1 \<le> T" and "length deltas = T"
    and "vsm = fold (td0_step deltas c) (rev [0..<T - 1]) [last deltas]"
  shows "length vsm = T \<and> vsm ! (T - 1) = deltas ! (T - 1)
       \<and> (\<forall>t<T - 1. vsm ! t = vadd (deltas ! t) (smul (c ! t) (vsm ! Suc t)))"
proof -
  have step: "td0_step deltas c i dq = (\<lambda>i x. vadd (deltas ! i) (smul (c ! i) x)) i (hd dq) # dq"
    for i dq
    by (simp add: td0_step_def)
  note loop = fold_rev_upt_cons [of "td0_step deltas c", OF step, of "T - 1" "last deltas" "[]",
      folded assms(3)]
  from loop have len: "length vsm = T"
    using assms(1) by simp
  from loop have "drop (T - 1) vsm = [last deltas]"
    by simp
  then have "vsm ! (T - 1) = last deltas"
    using len assms(1) by (metis Cons_nth_drop_Suc diff_less list.inject zero_less_one
        less_le_trans)
  moreover have "last deltas = deltas ! (T - 1)"
    using assms(1,2) by (metis last_conv_nth length_0_conv not_one_le_zero)
  ultimately show ?thesis
    using len loop by simp
qed


lemma td0_deltas:
  assumes "1 \<le> T" and "length vals = T" and "length rho = T"
    and "\<forall>t<T. length (vals ! t) = P" and "length returns = P"
    and "deltas = map2 smul rho (map2 vsub (tl vals @ [returns]) vals)"
  shows "length deltas = T"
    and "\<forall>t<T. length (deltas ! t) = P"
    and "\<forall>t<T. \<forall>p<P. deltas ! t ! p =
           rho ! t * ((if Suc t < T then vals ! Suc t ! p else returns ! p) - vals ! t ! p)"
proof -
  have lsh: "length (tl vals @ [returns]) = T"
    using assms(1,2) by simp
  show len: "length deltas = T"
    using assms(2,3,6) lsh by simp
  have row: "deltas ! t = smul (rho ! t) (vsub (if Suc t < T then vals ! Suc t else returns) (vals ! t))"
    if "t < T" for t
    using that assms(2,3) lsh by (simp add: assms(6) nth_shifted)
  have lnext: "length (if Suc t < T then vals ! Suc t else returns) = P" if "t < T" for t
    using assms(4,5) by simp
  show "\<forall>t<T. length (deltas ! t) = P"
    using row lnext assms(4) by (simp add: length_smul length_vsub)
  show "\<forall>t<T. \<forall>p<P. deltas ! t ! p =
           rho ! t * ((if Suc t < T then vals ! Suc t ! p else returns ! p) - vals ! t ! p)"
    using row lnext assms(4,5) by (simp add: nth_smul nth_vsub length_vsub)
qed

lemma td0_rows_length:
  assumes "1 \<le> T" and "length vsm = T" and "\<forall>t<T. length (deltas ! t) = P"
    and "vsm ! (T - 1) = deltas ! (T - 1)"
    and "\<forall>t<T - 1. vsm ! t = vadd (deltas ! t) (smul (c ! t) (vsm ! Suc t))"
  shows "k < T \<Longrightarrow> length (vsm ! (T - 1 - k)) = P"
proof (induction k)
  case 0
  then show ?case using assms(1,3,4) by simp
next
  case (Suc k)
  then have "length (vsm ! (T - 1 - k)) = P" by simp
  moreover have "Suc (T - 1 - Suc k) = T - 1 - k"
    using Suc.prems by simp
  moreover have "T - 1 - Suc k < T - 1"
    using Suc.prems by simp
  ultimately show ?case
    using assms(3,5) by (simp add: length_vadd length_smul)
qed


text \<open>
  C1. With the return estimator \<open>TD0\<close> and a batch of time length \<open>T \<ge> 1\<close>, \<open>vtrace\<close>
  returns value targets and advantages such that, for the list \<open>vs\<close> built by the backward
  loop and every player \<open>p\<close>: \<open>vs[T-1] = delta[T-1]\<close> and
  \<open>vs[t] = delta[t] + c[t] * vs[t+1]\<close> for \<open>t < T-1\<close>, where
  \<open>delta[t] = rho[t] * (value[t+1] - value[t])\<close> and \<open>value[T]\<close> is the final return;
  \<open>rho\<close> and \<open>c\<close> are the importance ratio clipped to at most 1; the value target is
  \<open>vs + value\<close>; and the advantage is \<open>rho\<close> times the value target of the next step (the
  return at the last step) minus \<open>value\<close>. Here \<open>value\<close>, \<open>rho\<close> and \<open>c\<close> are the
  outputs of \<open>vtrace_base\<close>.
\<close>

theorem vtrace_td0_recursion:
  assumes T: "1 \<le> T"
    and shape: "length t_values = T" "length sel_b = T" "length sel_t = T" "length gmasks = T"
      "\<forall>v\<in>set t_values. length v = P" "length returns = P"
    and base: "vtrace_base observation t_values sel_b sel_t gmasks returns = (value, rho, c)"
  shows "\<exists>vs value_targets advantages.
      vtrace ''TD0'' observation T t_values sel_b sel_t gmasks returns
        = Inr (value_targets, advantages)
    \<and> length value = T \<and> length rho = T \<and> length c = T
    \<and> length vs = T \<and> length value_targets = T \<and> length advantages = T
    \<and> (\<forall>t<T. rho ! t = min (exp (sel_t ! t * gmasks ! t - sel_b ! t * gmasks ! t)) 1
              \<and> c ! t = rho ! t \<and> rho ! t \<le> 1 \<and> c ! t \<le> 1)
    \<and> (\<forall>p<P. vs ! (T - 1) ! p = rho ! (T - 1) * (returns ! p - value ! (T - 1) ! p))
    \<and> (\<forall>t<T - 1. \<forall>p<P. vs ! t ! p =
           rho ! t * (value ! (t + 1) ! p - value ! t ! p) + c ! t * vs ! (t + 1) ! p)
    \<and> (\<forall>t<T. \<forall>p<P. value_targets ! t ! p = vs ! t ! p + value ! t ! p)
    \<and> (\<forall>t<T - 1. \<forall>p<P. advantages ! t ! p =
           rho ! t * (value_targets ! (t + 1) ! p - value ! t ! p))
    \<and> (\<forall>p<P. advantages ! (T - 1) ! p = rho ! (T - 1) * (returns ! p - value ! (T - 1) ! p))"
proof -
  define deltas where "deltas = map2 smul rho (map2 vsub (tl value @ [returns]) value)"
  define vs where "vs = fold (td0_step deltas c) (rev [0..<T - 1]) [last deltas]"
  define value_targets where "value_targets = map2 vadd vs value"
  define advantages where
    "advantages = map2 smul rho (map2 vsub (tl value_targets @ [returns]) value)"
  have rho: "length rho = T" "length c = T"
    "\<forall>t<T. rho ! t = min (exp (sel_t ! t * gmasks ! t - sel_b ! t * gmasks ! t)) 1
           \<and> c ! t = rho ! t"
    using vtrace_base_rho [OF shape(2,3,4) base] by simp_all
  have val: "length value = T" "\<forall>t<T. length (value ! t) = P"
    using vtrace_base_values [OF shape(1,4,5,6) base] by simp_all
  note d = td0_deltas [OF T val(1) rho(1) val(2) shape(6) deltas_def]
  have dne: "deltas \<noteq> []"
    using d(1) T by auto
  have run: "vtrace ''TD0'' observation T t_values sel_b sel_t gmasks returns
               = Inr (value_targets, advantages)"
    unfolding value_targets_def advantages_def
    by (rule vtrace_td0_unfold [OF base deltas_def dne vs_def])
  from td0_loop_rows [OF T d(1) vs_def]
  have lvs: "length vs = T" and vlast: "vs ! (T - 1) = deltas ! (T - 1)"
    and vrec: "\<forall>t<T - 1. vs ! t = vadd (deltas ! t) (smul (c ! t) (vs ! Suc t))"
    by simp_all
  have rowlen: "length (vs ! t) = P" if "t < T" for t
  proof -
    from that have "T - 1 - t < T" and "T - 1 - (T - 1 - t) = t" by simp_all
    with td0_rows_length [OF T lvs d(2) vlast vrec, of "T - 1 - t"] show ?thesis by simp
  qed
  have lvt: "length value_targets = T"
    using lvs val(1) by (simp add: value_targets_def)
  have vt_row: "value_targets ! t = vadd (vs ! t) (value ! t)" if "t < T" for t
    using that lvs val(1) by (simp add: value_targets_def)
  have vtlen: "length (value_targets ! t) = P" if "t < T" for t
    using that rowlen val(2) by (simp add: vt_row length_vadd)
  have lsh: "length (tl value_targets @ [returns]) = T"
    using lvt T by simp
  have ladv: "length advantages = T"
    using lsh rho(1) val(1) by (simp add: advantages_def)
  have adv_row: "advantages ! t =
      smul (rho ! t) (vsub (if Suc t < T then value_targets ! Suc t else returns) (value ! t))"
    if "t < T" for t
    using that lsh rho(1) val(1) lvt by (simp add: advantages_def nth_shifted)
  have c1: "\<forall>t<T. rho ! t = min (exp (sel_t ! t * gmasks ! t - sel_b ! t * gmasks ! t)) 1
              \<and> c ! t = rho ! t \<and> rho ! t \<le> 1 \<and> c ! t \<le> 1"
    using rho(3) by simp
  have c2: "\<forall>p<P. vs ! (T - 1) ! p = rho ! (T - 1) * (returns ! p - value ! (T - 1) ! p)"
  proof (intro allI impI)
    fix p assume p: "p < P"
    have t': "T - 1 < T" "\<not> Suc (T - 1) < T" using T by simp_all
    from d(3) t'(1) p have "deltas ! (T - 1) ! p = rho ! (T - 1) *
        ((if Suc (T - 1) < T then value ! Suc (T - 1) ! p else returns ! p) - value ! (T - 1) ! p)"
      by blast
    then show "vs ! (T - 1) ! p = rho ! (T - 1) * (returns ! p - value ! (T - 1) ! p)"
      using t'(2) vlast by simp
  qed
  have c3: "\<forall>t<T - 1. \<forall>p<P. vs ! t ! p =
           rho ! t * (value ! (t + 1) ! p - value ! t ! p) + c ! t * vs ! (t + 1) ! p"
  proof (intro allI impI)
    fix t p assume t: "t < T - 1" and p: "p < P"
    then have t': "t < T" "Suc t < T" by simp_all
    have "vs ! t ! p = deltas ! t ! p + c ! t * vs ! Suc t ! p"
      using vrec t p d(2) t' rowlen [OF t'(2)]
      by (simp add: nth_vadd nth_smul length_smul)
    then show "vs ! t ! p =
           rho ! t * (value ! (t + 1) ! p - value ! t ! p) + c ! t * vs ! (t + 1) ! p"
      using d(3) t' p by simp
  qed
  have c4: "\<forall>t<T. \<forall>p<P. value_targets ! t ! p = vs ! t ! p + value ! t ! p"
    using vt_row rowlen val(2) by (simp add: nth_vadd)
  have c5: "\<forall>t<T - 1. \<forall>p<P. advantages ! t ! p =
           rho ! t * (value_targets ! (t + 1) ! p - value ! t ! p)"
  proof (intro allI impI)
    fix t p assume t: "t < T - 1" and p: "p < P"
    then have t': "t < T" "Suc t < T" by simp_all
    show "advantages ! t ! p = rho ! t * (value_targets ! (t + 1) ! p - value ! t ! p)"
      using adv_row [OF t'(1)] t' p vtlen [OF t'(2)] val(2)
      by (simp add: nth_smul nth_vsub length_vsub)
  qed
  have c6: "\<forall>p<P. advantages ! (T - 1) ! p = rho ! (T - 1) * (returns ! p - value ! (T - 1) ! p)"
  proof (intro allI impI)
    fix p assume p: "p < P"
    have t': "T - 1 < T" "\<not> Suc (T - 1) < T" using T by simp_all
    show "advantages ! (T - 1) ! p = rho ! (T - 1) * (returns ! p - value ! (T - 1) ! p)"
      using adv_row [OF t'(1)] t' p val(2) shape(6)
      by (simp add: nth_smul nth_vsub length_vsub)
  qed
  show ?thesis
    using run val(1) rho(1,2) lvs lvt ladv c1 c2 c3 c4 c5 c6 by blast
qed

theorem vtrace_td0_recursion_witness:
  "1 \<le> (3 :: nat) \<and> length [[1, 0], [2, 0], [4, 0 :: real]] = 3
   \<and> vtrace_base True [[1, 0], [2, 0], [4, 0]] [0, 0, 0] [ln 2, ln (1 / 2), 0] [1, 1, 1] [8, - 8]
       = ([[1 / 2, - (1 / 2)], [1, - 1], [2, - 2]], [1, 1 / 2, 1], [1, 1 / 2, 1])
   \<and> vtrace ''TD0'' True 3 [[1, 0], [2, 0], [4, 0]] [0, 0, 0] [ln 2, ln (1 / 2), 0] [1, 1, 1] [8, - 8]
       = Inr ([[9 / 2, - (9 / 2)], [9 / 2, - (9 / 2)], [8, - 8]],
              [[4, - 4], [7 / 2, - (7 / 2)], [6, - 6]])"
proof -
  have base: "vtrace_base True [[1, 0], [2, 0], [4, 0]] [0, 0, 0] [ln 2, ln (1 / 2), 0] [1, 1, 1] [8, - 8]
       = ([[1 / 2, - (1 / 2)], [1, - 1], [2, - 2]], [1, 1 / 2, 1], [1, 1 / 2, 1])"
    by (simp add: vtrace_base_def Let_def clamp_def clip_rho_threshold_def clip_c_threshold_def
        vadd_def smul_def opponent_def)
  have h: "1 \<le> (3 :: nat)" "length [[1, 0], [2, 0], [4, 0 :: real]] = 3"
    "length [0, 0, 0 :: real] = 3" "length [ln 2, ln (1 / 2), 0 :: real] = 3"
    "length [1, 1, 1 :: real] = 3" "\<forall>v\<in>set [[1, 0], [2, 0], [4, 0 :: real]]. length v = 2"
    "length [8, - 8 :: real] = 2"
    by simp_all
  obtain vs value_targets advantages where
    "vtrace ''TD0'' True 3 [[1, 0], [2, 0], [4, 0]] [0, 0, 0] [ln 2, ln (1 / 2), 0] [1, 1, 1] [8, - 8]
        = Inr (value_targets, advantages)" "length (vs :: real list list) = 3"
    using vtrace_td0_recursion [OF h base] by blast
  moreover have "vtrace ''TD0'' True 3 [[1, 0], [2, 0], [4, 0]] [0, 0, 0] [ln 2, ln (1 / 2), 0] [1, 1, 1] [8, - 8]
       = Inr ([[9 / 2, - (9 / 2)], [9 / 2, - (9 / 2)], [8, - 8]],
              [[4, - 4], [7 / 2, - (7 / 2)], [6, - 6]])"
    by (simp add: vtrace_def base td0_step_def vadd_def vsub_def smul_def upt_rec)
  ultimately show ?thesis
    using base h(1,2) by simp
qed


lemma vtrace_tdlambda_unfold:
  assumes "vtrace_base observation t_values sel_b sel_t gmasks returns = (vals, rho, c)"
    and "lr = fold (lambda_step vals) (rev [1..<T]) [returns]"
  shows "vtrace ''TDLAMBDA'' observation T t_values sel_b sel_t gmasks returns =
           Inr (lr, map2 smul rho (map2 vsub lr vals))"
  using assms by (simp add: vtrace_def Let_def)

lemma lambda_loop_rows:
  assumes "1 \<le> T"
    and "lr = fold (lambda_step vals) (rev [1..<T]) [returns]"
  shows "length lr = T \<and> lr ! (T - 1) = returns
       \<and> (\<forall>t<T - 1. lr ! t = vadd (smul (1 - lmb) (vals ! Suc t)) (smul lmb (lr ! Suc t)))"
proof -
  have idx: "rev [1..<T] = map Suc (rev [0..<T - 1])"
    using assms(1) by (simp add: rev_map [symmetric] map_Suc_upt)
  have lr: "lr = fold (\<lambda>i. lambda_step vals (Suc i)) (rev [0..<T - 1]) [returns]"
    unfolding assms(2) idx by (simp add: fold_map comp_def)
  have step: "lambda_step vals (Suc i) dq =
      (\<lambda>i x. vadd (smul (1 - lmb) (vals ! Suc i)) (smul lmb x)) i (hd dq) # dq" for i dq
    by (simp add: lambda_step_def)
  note loop = fold_rev_upt_cons [of "\<lambda>i. lambda_step vals (Suc i)", OF step,
      of "T - 1" returns "[]", folded lr]
  from loop have len: "length lr = T"
    using assms(1) by simp
  from loop have "drop (T - 1) lr = [returns]"
    by simp
  then have "lr ! (T - 1) = returns"
    using len assms(1) by (metis Cons_nth_drop_Suc diff_less list.inject zero_less_one
        less_le_trans)
  then show ?thesis
    using len loop by simp
qed

lemma lambda_rows_length:
  assumes "1 \<le> T" and "length lr = T" and "\<forall>t<T. length (vals ! t) = P"
    and "length (lr ! (T - 1)) = P"
    and "\<forall>t<T - 1. lr ! t = vadd (smul a (vals ! Suc t)) (smul b (lr ! Suc t))"
  shows "k < T \<Longrightarrow> length (lr ! (T - 1 - k)) = P"
proof (induction k)
  case 0
  then show ?case using assms(4) by simp
next
  case (Suc k)
  then have "length (lr ! (T - 1 - k)) = P" by simp
  moreover have "Suc (T - 1 - Suc k) = T - 1 - k"
    using Suc.prems by simp
  moreover have "T - 1 - Suc k < T - 1"
    using Suc.prems by simp
  moreover have "length (vals ! (T - 1 - k)) = P"
    using assms(1,3) by simp
  ultimately show ?case
    using assms(5) by (simp add: length_vadd length_smul)
qed

text \<open>
  C2 (as amended). With the return estimator \<open>TDLAMBDA\<close> (\<open>lambda = 0.7\<close>) and a batch
  of time length \<open>T \<ge> 1\<close>: \<open>target[T-1]\<close> is the return, and for \<open>t\<close> from \<open>T-2\<close>
  down to 0, \<open>target[t] = (1 - lambda) * value[t+1] + lambda * target[t+1]\<close>: the blended
  value is the one of the next step, not \<open>value[t]\<close>. The advantage is \<open>rho\<close> times
  \<open>target - value\<close>.
\<close>

theorem vtrace_tdlambda_recursion:
  assumes T: "1 \<le> T"
    and shape: "length t_values = T" "length sel_b = T" "length sel_t = T" "length gmasks = T"
      "\<forall>v\<in>set t_values. length v = P" "length returns = P"
    and base: "vtrace_base observation t_values sel_b sel_t gmasks returns = (value, rho, c)"
  shows "\<exists>target advantages.
      vtrace ''TDLAMBDA'' observation T t_values sel_b sel_t gmasks returns
        = Inr (target, advantages)
    \<and> length value = T \<and> length rho = T \<and> length target = T \<and> length advantages = T
    \<and> (\<forall>t<T. rho ! t = min (exp (sel_t ! t * gmasks ! t - sel_b ! t * gmasks ! t)) 1)
    \<and> (\<forall>p<P. target ! (T - 1) ! p = returns ! p)
    \<and> (\<forall>t<T - 1. \<forall>p<P. target ! t ! p =
           (1 - 0.7) * value ! (t + 1) ! p + 0.7 * target ! (t + 1) ! p)
    \<and> (\<forall>t<T. \<forall>p<P. advantages ! t ! p = rho ! t * (target ! t ! p - value ! t ! p))"
proof -
  define target where "target = fold (lambda_step value) (rev [1..<T]) [returns]"
  define advantages where "advantages = map2 smul rho (map2 vsub target value)"
  have rho: "length rho = T"
    "\<forall>t<T. rho ! t = min (exp (sel_t ! t * gmasks ! t - sel_b ! t * gmasks ! t)) 1"
    using vtrace_base_rho [OF shape(2,3,4) base] by simp_all
  have val: "length value = T" "\<forall>t<T. length (value ! t) = P"
    using vtrace_base_values [OF shape(1,4,5,6) base] by simp_all
  have run: "vtrace ''TDLAMBDA'' observation T t_values sel_b sel_t gmasks returns
               = Inr (target, advantages)"
    unfolding advantages_def by (rule vtrace_tdlambda_unfold [OF base target_def])
  from lambda_loop_rows [OF T target_def]
  have lt: "length target = T" and tlast: "target ! (T - 1) = returns"
    and trec: "\<forall>t<T - 1. target ! t =
        vadd (smul (1 - lmb) (value ! Suc t)) (smul lmb (target ! Suc t))"
    by simp_all
  have rowlen: "length (target ! t) = P" if "t < T" for t
  proof -
    from that have "T - 1 - t < T" and "T - 1 - (T - 1 - t) = t" by simp_all
    moreover have "length (target ! (T - 1)) = P"
      using tlast shape(6) by simp
    ultimately show ?thesis
      using lambda_rows_length [OF T lt val(2) _ trec, of "T - 1 - t"] by simp
  qed
  have ladv: "length advantages = T"
    using lt rho(1) val(1) by (simp add: advantages_def)
  have c1: "\<forall>p<P. target ! (T - 1) ! p = returns ! p"
    using tlast by simp
  have c2: "\<forall>t<T - 1. \<forall>p<P. target ! t ! p =
           (1 - 0.7) * value ! (t + 1) ! p + 0.7 * target ! (t + 1) ! p"
  proof (intro allI impI)
    fix t p assume t: "t < T - 1" and p: "p < P"
    then have t': "t < T" "Suc t < T" by simp_all
    have "length (value ! Suc t) = P"
      using val(2) t'(2) by blast
    then show "target ! t ! p = (1 - 0.7) * value ! (t + 1) ! p + 0.7 * target ! (t + 1) ! p"
      using trec t p rowlen [OF t'(2)]
      by (simp add: nth_vadd nth_smul length_smul lmb_def)
  qed
  have c3: "\<forall>t<T. \<forall>p<P. advantages ! t ! p = rho ! t * (target ! t ! p - value ! t ! p)"
  proof (intro allI impI)
    fix t p assume t: "t < T" and p: "p < P"
    have "length (value ! t) = P"
      using val(2) t by blast
    then show "advantages ! t ! p = rho ! t * (target ! t ! p - value ! t ! p)"
      using t p lt rho(1) val(1) rowlen [OF t]
      by (simp add: advantages_def nth_smul nth_vsub length_vsub)
  qed
  show ?thesis
    using run val(1) rho lt ladv c1 c2 c3 by blast
qed

theorem vtrace_tdlambda_recursion_witness:
  "1 \<le> (2 :: nat) \<and> length [[0], [1 :: real]] = 2
   \<and> vtrace_base False [[0], [1]] [0, 0] [0, 0] [1, 1] [0] = ([[0], [1]], [1, 1], [1, 1])
   \<and> vtrace ''TDLAMBDA'' False 2 [[0], [1]] [0, 0] [0, 0] [1, 1] [0]
       = Inr ([[3 / 10], [0]], [[3 / 10], [- 1]])"
proof -
  have base: "vtrace_base False [[0], [1]] [0, 0] [0, 0] [1, 1] [0] = ([[0], [1]], [1, 1], [1, 1])"
    by (simp add: vtrace_base_def Let_def clamp_def clip_rho_threshold_def clip_c_threshold_def
        vadd_def smul_def)
  have h: "1 \<le> (2 :: nat)" "length [[0], [1 :: real]] = 2"
    "length [0, 0 :: real] = 2" "length [0, 0 :: real] = 2"
    "length [1, 1 :: real] = 2" "\<forall>v\<in>set [[0], [1 :: real]]. length v = 1"
    "length [0 :: real] = 1"
    by simp_all
  obtain target advantages where run:
    "vtrace ''TDLAMBDA'' False 2 [[0], [1]] [0, 0] [0, 0] [1, 1] [0] = Inr (target, advantages)"
    and "target ! (2 - 1) ! 0 = [0 :: real] ! 0"
    using vtrace_tdlambda_recursion [OF h base] by blast
  moreover have "vtrace ''TDLAMBDA'' False 2 [[0], [1]] [0, 0] [0, 0] [1, 1] [0]
       = Inr ([[3 / 10], [0]], [[3 / 10], [- 1]])"
    by (simp add: vtrace_def base lambda_step_def vadd_def vsub_def smul_def lmb_def upt_rec)
  ultimately show ?thesis
    using base h(1,2) by simp
qed

text \<open>
  The recursion with \<open>value[t]\<close> in place of \<open>value[t+1]\<close> fails on the two-step batch with
  values 0 and 1 and return 0: \<open>target[0]\<close> is \<open>0.3\<close>, not \<open>0.3 * 0 + 0.7 * 0\<close>.
\<close>

theorem vtrace_tdlambda_spec_counterexample:
  "vtrace_base False [[0], [1]] [0, 0] [0, 0] [1, 1] [0] = ([[0], [1]], [1, 1], [1, 1])
   \<and> vtrace ''TDLAMBDA'' False 2 [[0], [1]] [0, 0] [0, 0] [1, 1] [0]
       = Inr ([[3 / 10], [0]], [[3 / 10], [- 1]])
   \<and> [[3 / 10], [0 :: real]] ! 0 ! 0
       \<noteq> (1 - 0.7) * [[0], [1 :: real]] ! 0 ! 0 + 0.7 * [[3 / 10], [0 :: real]] ! (0 + 1) ! 0"
proof -
  have base: "vtrace_base False [[0], [1]] [0, 0] [0, 0] [1, 1] [0] = ([[0], [1]], [1, 1], [1, 1])"
    by (simp add: vtrace_base_def Let_def clamp_def clip_rho_threshold_def clip_c_threshold_def
        vadd_def smul_def)
  have "vtrace ''TDLAMBDA'' False 2 [[0], [1]] [0, 0] [0, 0] [1, 1] [0]
       = Inr ([[3 / 10], [0]], [[3 / 10], [- 1]])"
    by (simp add: vtrace_def base lambda_step_def vadd_def vsub_def smul_def lmb_def upt_rec)
  then show ?thesis
    using base by simp
qed

subsection \<open>Batch assembly\<close>











subsection \<open>Win rate\<close>

lemma count_result_keys:
  "map fst (count_result h reward) =
     (if reward \<in> set (map fst h) then map fst h else map fst h @ [reward])"
  by (auto simp: count_result_def Let_def comp_def split_def)

lemma count_result_distinct:
  "distinct (map fst h) \<Longrightarrow> distinct (map fst (count_result h reward))"
  unfolding count_result_keys by simp

lemma count_result_positive:
  "0 < sum_list (map snd (count_result h reward))"
proof -
  have "reward \<in> set (map fst (count_result h reward))"
    unfolding count_result_keys by simp
  then obtain cnt where "(reward, cnt) \<in> set (count_result h reward)"
    by auto
  moreover from this have "0 < cnt"
    by (auto simp: count_result_def Let_def split: if_splits)
  ultimately have "cnt \<in> set (map snd (count_result h reward))" and "0 < cnt"
    by force+
  then show ?thesis
    using member_le_sum_list [of cnt "map snd (count_result h reward)"] by linarith
qed

lemma tally_fold:
  "fold (\<lambda>(r, cnt) (n, win). (n + cnt, win + (r + 1) / 2 * real cnt)) xs (n0, w0) =
     (n0 + sum_list (map snd xs), w0 + (\<Sum>(r, cnt)\<leftarrow>xs. (r + 1) / 2 * real cnt))"
  by (induction xs arbitrary: n0 w0) (auto simp: algebra_simps)

lemma sum_list_mset_cong:
  fixes g :: "'a \<Rightarrow> 'b :: comm_monoid_add"
  assumes "mset xs = mset ys"
  shows "sum_list (map g xs) = sum_list (map g ys)"
proof -
  have "sum_list (map g xs) = sum_mset (image_mset g (mset xs))"
    by (simp add: sum_mset_sum_list [symmetric])
  also have "\<dots> = sum_mset (image_mset g (mset ys))"
    by (simp add: assms)
  also have "\<dots> = sum_list (map g ys)"
    by (simp add: sum_mset_sum_list [symmetric])
  finally show ?thesis .
qed

lemma sorted_items_mset:
  assumes "distinct (map fst d)"
  shows "mset (map (\<lambda>k. (k, the (map_of d k))) (rev (sort (map fst d)))) = mset d"
proof -
  have "mset (map (\<lambda>k. (k, the (map_of d k))) (rev (sort (map fst d))))
          = image_mset (\<lambda>k. (k, the (map_of d k))) (image_mset fst (mset d))"
    by simp
  also have "\<dots> = image_mset (\<lambda>x. (fst x, the (map_of d (fst x)))) (mset d)"
    by (simp add: image_mset.compositionality comp_def)
  also have "\<dots> = image_mset (\<lambda>x. x) (mset d)"
  proof (rule image_mset_cong)
    fix x assume "x \<in># mset d"
    then have "(fst x, snd x) \<in> set d" by simp
    then have "map_of d (fst x) = Some (snd x)"
      using assms by (rule map_of_is_SomeI [rotated])
    then show "(fst x, the (map_of d (fst x))) = x" by simp
  qed
  finally show ?thesis by simp
qed

lemma win_rate_report_eq:
  assumes "res era = Some distribution"
    and "distinct (map fst distribution)"
    and "0 < sum_list (map snd distribution)"
  shows "win_rate_report res era =
           Inr (Some ((\<Sum>(r, cnt)\<leftarrow>distribution. (r + 1) / 2 * real cnt)
                        / real (sum_list (map snd distribution)),
                      (\<Sum>(r, cnt)\<leftarrow>distribution. (r + 1) / 2 * real cnt),
                      sum_list (map snd distribution)))"
proof -
  let ?items = "map (\<lambda>k. (k, the (map_of distribution k))) (rev (sort (map fst distribution)))"
  have ms: "mset ?items = mset distribution"
    using assms(2) by (rule sorted_items_mset)
  have n: "sum_list (map snd ?items) = sum_list (map snd distribution)"
    using ms by (rule sum_list_mset_cong)
  have w: "(\<Sum>(r, cnt)\<leftarrow>?items. (r + 1) / 2 * real cnt)
             = (\<Sum>(r, cnt)\<leftarrow>distribution. (r + 1) / 2 * real cnt)"
    using ms by (rule sum_list_mset_cong)
  define N where "N = sum_list (map snd distribution)"
  define W where "W = (\<Sum>(r, cnt)\<leftarrow>distribution. (r + 1) / 2 * real cnt)"
  have tally: "fold (\<lambda>(r, cnt) (n, win). (n + cnt, win + (r + 1) / 2 * real cnt)) ?items (0, 0)
          = (N, W)"
    unfolding tally_fold n w N_def W_def by simp
  have "N \<noteq> 0"
    using assms(3) unfolding N_def by linarith
  then have "win_rate_report res era = Inr (Some (W / real N, W, N))"
    unfolding win_rate_report_def Let_def assms(1) option.case tally by simp
  then show ?thesis
    unfolding N_def W_def .
qed

lemma feed_results_invariant:
  assumes "\<forall>era d. res era = Some d \<longrightarrow> distinct (map fst d) \<and> 0 < sum_list (map snd d)"
  shows "\<forall>era d. feed_results res rs era = Some d \<longrightarrow>
           distinct (map fst d) \<and> 0 < sum_list (map snd d)"
  using assms
proof (induction rs arbitrary: res)
  case Nil
  then show ?case by simp
next
  case (Cons a rs)
  obtain model_id reward where a: "a = (model_id, reward)" by (cases a)
  show ?case
  proof (cases reward)
    case None
    then have "feed_results res (a # rs) = feed_results res rs"
      by (simp add: a)
    then show ?thesis
      using Cons.IH [OF Cons.prems] by (simp only:)
  next
    case (Some rw)
    define res1 where "res1 = (if res model_id = None then res(model_id \<mapsto> []) else res)"
    define res2 where "res2 = res1(model_id \<mapsto> count_result (the (res1 model_id)) rw)"
    have d1: "distinct (map fst (the (res1 model_id)))"
    proof (cases "res model_id")
      case None
      then show ?thesis by (simp add: res1_def)
    next
      case (Some d0)
      with Cons.prems have "distinct (map fst d0)" by blast
      with Some show ?thesis by (simp add: res1_def)
    qed
    have "\<forall>era d. res2 era = Some d \<longrightarrow> distinct (map fst d) \<and> 0 < sum_list (map snd d)"
    proof (intro allI impI)
      fix era d assume d: "res2 era = Some d"
      show "distinct (map fst d) \<and> 0 < sum_list (map snd d)"
      proof (cases "era = model_id")
        case True
        with d have "d = count_result (the (res1 model_id)) rw"
          by (simp add: res2_def)
        then show ?thesis
          using count_result_distinct [OF d1] count_result_positive by simp
      next
        case False
        with d have "res era = Some d"
          by (simp add: res2_def res1_def split: if_splits)
        with Cons.prems show ?thesis by blast
      qed
    qed
    then have "\<forall>era d. feed_results res2 rs era = Some d \<longrightarrow>
           distinct (map fst d) \<and> 0 < sum_list (map snd d)"
      by (rule Cons.IH)
    moreover have "feed_results res (a # rs) = feed_results res2 rs"
      by (simp add: a Some res2_def res1_def Let_def)
    ultimately show ?thesis by (simp only:)
  qed
qed

lemma win_rate_report_no_error:
  assumes "\<forall>era d. res era = Some d \<longrightarrow> distinct (map fst d) \<and> 0 < sum_list (map snd d)"
  shows "\<exists>printed. win_rate_report res era = Inr printed"
proof (cases "res era")
  case None
  then show ?thesis by (simp add: win_rate_report_def)
next
  case (Some d)
  with assms have "distinct (map fst d)" "0 < sum_list (map snd d)" by blast+
  with Some have "win_rate_report res era =
           Inr (Some ((\<Sum>(r, cnt)\<leftarrow>d. (r + 1) / 2 * real cnt) / real (sum_list (map snd d)),
                      (\<Sum>(r, cnt)\<leftarrow>d. (r + 1) / 2 * real cnt),
                      sum_list (map snd d)))"
    by (rule win_rate_report_eq)
  then show ?thesis by (rule exI)
qed

text \<open>
  C8. For the histogram of the current era, a dictionary (distinct outcomes) whose counts
  sum to more than zero: the reported win rate is the count-weighted mean of
  \<open>(outcome + 1) / 2\<close>, that is the sum of \<open>(outcome + 1) / 2 * count\<close> divided by the
  sum of the counts. The histogram \<open>{+1: 3, -1: 1}\<close> gives \<open>0.75\<close>.
\<close>

theorem win_rate_weighted_mean:
  assumes "res era = Some distribution"
    and "distinct (map fst distribution)"
    and "0 < sum_list (map snd distribution)"
  shows "win_rate_report res era =
           Inr (Some ((\<Sum>(r, cnt)\<leftarrow>distribution. (r + 1) / 2 * real cnt)
                        / real (sum_list (map snd distribution)),
                      (\<Sum>(r, cnt)\<leftarrow>distribution. (r + 1) / 2 * real cnt),
                      sum_list (map snd distribution)))"
  using assms by (rule win_rate_report_eq)

theorem win_rate_weighted_mean_witness:
  "feed_results Map.empty [(0, Some 1), (0, Some 1), (0, Some (- 1)), (0, None), (0, Some 1)] 0
     = Some [(1, 3), (- 1, 1)]
   \<and> distinct (map fst [(1 :: real, 3 :: nat), (- 1, 1)])
   \<and> 0 < sum_list (map snd [(1 :: real, 3 :: nat), (- 1, 1)])
   \<and> win_rate_report
       (feed_results Map.empty [(0, Some 1), (0, Some 1), (0, Some (- 1)), (0, None), (0, Some 1)]) 0
     = Inr (Some (0.75, 3, 4))"
proof -
  have fed: "feed_results Map.empty
      [(0, Some 1), (0, Some 1), (0, Some (- 1)), (0, None), (0, Some 1)] 0
     = Some [(1, 3), (- 1, 1)]"
    by (simp add: count_result_def Let_def)
  have h: "distinct (map fst [(1 :: real, 3 :: nat), (- 1, 1)])"
    "0 < sum_list (map snd [(1 :: real, 3 :: nat), (- 1, 1)])"
    by simp_all
  show ?thesis
    using win_rate_weighted_mean [of "feed_results Map.empty
          [(0, Some 1), (0, Some 1), (0, Some (- 1)), (0, None), (0, Some 1)]" 0
        "[(1, 3), (- 1, 1)]", OF fed h] fed h
    by simp
qed

subsection \<open>Model eras and files\<close>


lemma digit_char_inj:
  assumes "a < 10" and "b < 10" and "digit_char a = digit_char b"
  shows "a = b"
proof -
  have "distinct ''0123456789''" by simp
  moreover have "a < length ''0123456789''" "b < length ''0123456789''"
    using assms(1,2) by simp_all
  ultimately have "(''0123456789'' ! a = ''0123456789'' ! b) = (a = b)"
    by (rule nth_eq_iff_index_eq)
  then show ?thesis
    using assms(3) by (simp only: digit_char_def)
qed

lemma digit_char_not_minus:
  assumes "d < 10"
  shows "digit_char d \<noteq> CHR ''-''"
proof -
  have "d < length ''0123456789''"
    using assms by simp
  then have "''0123456789'' ! d \<in> set ''0123456789''"
    by (rule nth_mem)
  then show ?thesis
    unfolding digit_char_def by auto
qed

lemma str_nat_nonempty: "str_nat n \<noteq> []"
  by (subst str_nat.simps) simp

lemma str_nat_no_minus: "CHR ''-'' \<notin> set (str_nat n)"
proof (induction n rule: str_nat.induct)
  case (1 n)
  show ?case
  proof (cases "n < 10")
    case True
    then show ?thesis
      using digit_char_not_minus [of n] by (subst str_nat.simps) auto
  next
    case False
    moreover have "n mod 10 < 10" by simp
    ultimately show ?thesis
      using 1 digit_char_not_minus [of "n mod 10"] by (subst str_nat.simps) auto
  qed
qed

lemma str_nat_inj: "str_nat m = str_nat n \<Longrightarrow> m = n"
proof (induction m arbitrary: n rule: str_nat.induct)
  case (1 m)
  have dm: "m mod 10 < 10" and dn: "n mod 10 < 10" by simp_all
  show ?case
  proof (cases "m < 10")
    case m: True
    show ?thesis
    proof (cases "n < 10")
      case True
      with m "1.prems" have "digit_char m = digit_char n"
        by (simp add: str_nat.simps [of m] str_nat.simps [of n])
      with m True show ?thesis by (rule digit_char_inj)
    next
      case False
      with m "1.prems" have "str_nat (n div 10) = []"
        by (simp add: str_nat.simps [of m] str_nat.simps [of n])
      then show ?thesis using str_nat_nonempty by blast
    qed
  next
    case m: False
    show ?thesis
    proof (cases "n < 10")
      case True
      with m "1.prems" have "str_nat (m div 10) = []"
        by (simp add: str_nat.simps [of m] str_nat.simps [of n])
      then show ?thesis using str_nat_nonempty by blast
    next
      case False
      with m "1.prems" have eq: "str_nat (m div 10) = str_nat (n div 10)"
        and d: "digit_char (m mod 10) = digit_char (n mod 10)"
        by (simp_all add: str_nat.simps [of m] str_nat.simps [of n])
      from "1.IH" [OF m eq] have "m div 10 = n div 10" .
      moreover from digit_char_inj [OF dm dn d] have "m mod 10 = n mod 10" .
      ultimately show ?thesis
        by (metis div_mult_mod_eq)
    qed
  qed
qed

lemma str_int_inj: "str_int i = str_int j \<Longrightarrow> i = j"
proof -
  assume eq: "str_int i = str_int j"
  have hd_nat: "hd (str_nat n) \<noteq> CHR ''-''" for n
    using str_nat_no_minus [of n] str_nat_nonempty [of n] by (metis hd_in_set)
  show "i = j"
  proof (cases "i < 0")
    case i: True
    show ?thesis
    proof (cases "j < 0")
      case True
      with i eq have "str_nat (nat (- i)) = str_nat (nat (- j))"
        by (simp add: str_int_def)
      then have "nat (- i) = nat (- j)" by (rule str_nat_inj)
      with i True show ?thesis by simp
    next
      case False
      with i eq have "hd (str_nat (nat j)) = CHR ''-''"
        by (simp add: str_int_def) (metis list.sel(1))
      with hd_nat show ?thesis by blast
    qed
  next
    case i: False
    show ?thesis
    proof (cases "j < 0")
      case True
      with i eq have "hd (str_nat (nat i)) = CHR ''-''"
        by (simp add: str_int_def)
      with hd_nat show ?thesis by blast
    next
      case False
      with i eq have "str_nat (nat i) = str_nat (nat j)"
        by (simp add: str_int_def)
      then have "nat i = nat j" by (rule str_nat_inj)
      with i False show ?thesis by simp
    qed
  qed
qed

lemma model_path_inj: "model_path a = model_path b \<longleftrightarrow> a = b"
  using str_int_inj by (auto simp: model_path_def)


lemma update_model_fields:
  "model_era (update_model state_dict s m k) = model_era s + 1"
  "model (update_model state_dict s m k) = m"
  "results (update_model state_dict s m k) = results s"
  "files (update_model state_dict s m k) =
     (files s)(model_path (model_era s + 1) \<mapsto> state_dict m)"
  by (simp_all add: update_model_def Let_def)

lemma update_models_era:
  "model_era (update_models state_dict s ms) = model_era s + int (length ms)"
  by (induction ms arbitrary: s) (auto simp: update_model_fields)

lemma update_models_keeps:
  "e \<le> model_era s \<Longrightarrow>
   files (update_models state_dict s ms) (model_path e) = files s (model_path e)"
proof (induction ms arbitrary: s)
  case Nil
  then show ?case by simp
next
  case (Cons a ms)
  obtain m k where a: "a = (m, k)" by (cases a)
  have "e \<le> model_era (update_model state_dict s m k)"
    using Cons.prems by (simp add: update_model_fields)
  then have "files (update_models state_dict (update_model state_dict s m k) ms) (model_path e)
               = files (update_model state_dict s m k) (model_path e)"
    by (rule Cons.IH)
  moreover have "e \<noteq> model_era s + 1"
    using Cons.prems by simp
  ultimately show ?case
    by (simp add: a update_model_fields model_path_inj)
qed

lemma update_models_writes:
  "i < length ms \<Longrightarrow>
   files (update_models state_dict s ms) (model_path (model_era s + 1 + int i))
     = Some (state_dict (fst (ms ! i)))"
proof (induction ms arbitrary: s i)
  case Nil
  then show ?case by simp
next
  case (Cons a ms)
  obtain m k where a: "a = (m, k)" by (cases a)
  let ?s1 = "update_model state_dict s m k"
  show ?case
  proof (cases i)
    case 0
    have "files (update_models state_dict ?s1 ms) (model_path (model_era s + 1))
            = files ?s1 (model_path (model_era s + 1))"
      by (rule update_models_keeps) (simp add: update_model_fields)
    then show ?thesis
      by (simp add: 0 a update_model_fields)
  next
    case (Suc j)
    then have "j < length ms" using Cons.prems by simp
    then have "files (update_models state_dict ?s1 ms) (model_path (model_era ?s1 + 1 + int j))
            = Some (state_dict (fst (ms ! j)))"
      by (rule Cons.IH)
    then show ?thesis
      by (simp add: Suc a update_model_fields add.assoc)
  qed
qed

lemma learner_update_is_update_model:
  assumes "learner_update state_dict minimum_episodes s tr evs = Some (Inr (printed, s', tr'))"
  shows "\<exists>m k. s' = update_model state_dict s m k"
  using assms
  by (auto simp: learner_update_def Let_def split: sum.splits option.splits prod.splits)

lemma wait_update_reported:
  assumes "\<forall>ev\<in>set pre. ev = None \<or> (\<exists>k'. ev = Some (None, k'))"
    and "update_flag tr \<or> fst (updated_model tr) = None"
  shows "wait_update tr (pre @ Some (Some m, k) # evs) =
           Some ((Some m, k), tr\<lparr>update_flag := False, updated_model := (Some m, k)\<rparr>)"
  using assms
proof (induction pre arbitrary: tr)
  case Nil
  show ?case
    by (simp add: report_update_def recheck_update_def)
next
  case (Cons ev pre)
  from Cons.prems(1) have rest: "\<forall>ev\<in>set pre. ev = None \<or> (\<exists>k'. ev = Some (None, k'))"
    by simp
  from Cons.prems(1) consider "ev = None" | k' where "ev = Some (None, k')"
    by auto
  then show ?case
  proof cases
    case 1
    have "fst (recheck_update tr) = None"
      using Cons.prems(2) by (auto simp: recheck_update_def)
    then have "wait_update tr ((ev # pre) @ Some (Some m, k) # evs)
                 = wait_update tr (pre @ Some (Some m, k) # evs)"
      by (simp add: 1 split_def Let_def)
    then show ?thesis
      using Cons.IH [OF rest Cons.prems(2)] by (simp only:)
  next
    case 2
    let ?tr = "report_update tr None k'"
    have inv: "update_flag ?tr \<or> fst (updated_model ?tr) = None"
      by (simp add: report_update_def)
    have "fst (recheck_update ?tr) = None"
      by (simp add: report_update_def recheck_update_def)
    then have "wait_update tr ((ev # pre) @ Some (Some m, k) # evs)
                 = wait_update ?tr (pre @ Some (Some m, k) # evs)"
      by (simp add: 2 split_def Let_def)
    also have "\<dots> = Some ((Some m, k), ?tr\<lparr>update_flag := False, updated_model := (Some m, k)\<rparr>)"
      by (rule Cons.IH [OF rest inv])
    also have "?tr\<lparr>update_flag := False, updated_model := (Some m, k)\<rparr>
                 = tr\<lparr>update_flag := False, updated_model := (Some m, k)\<rparr>"
      by (simp add: report_update_def)
    finally show ?thesis .
  qed
qed

lemma trainer_update_reported:
  assumes "\<not> int (length (episodes tr)) < minimum_episodes"
    and "\<forall>ev\<in>set pre. ev = None \<or> (\<exists>k'. ev = Some (None, k'))"
  shows "trainer_update minimum_episodes tr (pre @ Some (Some m, k) # evs) =
           Some ((Some m, k), tr\<lparr>update_flag := False, updated_model := (Some m, k)\<rparr>)"
proof -
  have "wait_update (tr\<lparr>update_flag := True\<rparr>) (pre @ Some (Some m, k) # evs) =
          Some ((Some m, k),
                tr\<lparr>update_flag := True\<rparr>\<lparr>update_flag := False, updated_model := (Some m, k)\<rparr>)"
    by (rule wait_update_reported [OF assms(2)]) simp
  then show ?thesis
    using assms(1) by (simp add: trainer_update_def)
qed

lemma trainer_update_below_minimum:
  "int (length (episodes tr)) < minimum_episodes \<Longrightarrow>
   trainer_update minimum_episodes tr evs = Some ((None, 0), tr)"
  by (simp add: trainer_update_def)

lemma learner_update_below_minimum:
  assumes "int (length (episodes tr)) < minimum_episodes"
    and "win_rate_report (results s) (model_era s) = Inr printed"
  shows "learner_update state_dict minimum_episodes s tr evs =
           Some (Inr (printed, update_model state_dict s (model s) 0, tr))"
  using assms by (simp add: learner_update_def trainer_update_below_minimum)

lemma learner_update_reported:
  assumes "\<not> int (length (episodes tr)) < minimum_episodes"
    and "\<forall>ev\<in>set pre. ev = None \<or> (\<exists>k'. ev = Some (None, k'))"
    and "win_rate_report (results s) (model_era s) = Inr printed"
  shows "learner_update state_dict minimum_episodes s tr (pre @ Some (Some m, k) # evs) =
           Some (Inr (printed, update_model state_dict s m k,
                      tr\<lparr>update_flag := False, updated_model := (Some m, k)\<rparr>))"
  using assms(3) by (simp add: learner_update_def trainer_update_reported [OF assms(1,2)])

text \<open>
  An update is answered when the store is below the minimum, or when the events of the
  call hold a report of a model after polls without a report and reports of no model.
\<close>

lemma learner_update_answered:
  assumes inv: "\<forall>era d. results s era = Some d \<longrightarrow>
                  distinct (map fst d) \<and> 0 < sum_list (map snd d)"
    and ans: "int (length (episodes tr)) < minimum_episodes
              \<or> (\<exists>pre m k rest. evs = pre @ Some (Some m, k) # rest
                    \<and> (\<forall>ev\<in>set pre. ev = None \<or> (\<exists>k'. ev = Some (None, k'))))"
  shows "\<exists>printed m k tr'.
           learner_update state_dict minimum_episodes s tr evs =
             Some (Inr (printed, update_model state_dict s m k, tr'))
           \<and> episodes tr' = episodes tr"
proof -
  obtain printed where pr: "win_rate_report (results s) (model_era s) = Inr printed"
    using win_rate_report_no_error [OF inv] by blast
  show ?thesis
  proof (cases "int (length (episodes tr)) < minimum_episodes")
    case True
    from learner_update_below_minimum [OF True pr]
    have "learner_update state_dict minimum_episodes s tr evs =
            Some (Inr (printed, update_model state_dict s (model s) 0, tr))" .
    then show ?thesis by blast
  next
    case False
    with ans obtain pre m k rest where evs: "evs = pre @ Some (Some m, k) # rest"
      and pre: "\<forall>ev\<in>set pre. ev = None \<or> (\<exists>k'. ev = Some (None, k'))"
      by blast
    let ?tr = "tr\<lparr>update_flag := False, updated_model := (Some m, k)\<rparr>"
    from learner_update_reported [OF False pre pr]
    have "learner_update state_dict minimum_episodes s tr evs =
            Some (Inr (printed, update_model state_dict s m k, ?tr))"
      unfolding evs .
    moreover have "episodes ?tr = episodes tr" by simp
    ultimately show ?thesis by blast
  qed
qed

lemma learner_updates_answered:
  assumes inv: "\<forall>era d. results s era = Some d \<longrightarrow>
                  distinct (map fst d) \<and> 0 < sum_list (map snd d)"
    and ans: "int (length (episodes tr)) < minimum_episodes
              \<or> (\<forall>evs\<in>set evss. \<exists>pre m k rest. evs = pre @ Some (Some m, k) # rest
                    \<and> (\<forall>ev\<in>set pre. ev = None \<or> (\<exists>k'. ev = Some (None, k'))))"
  shows "\<exists>ms tr'. length ms = length evss
           \<and> learner_updates state_dict minimum_episodes s tr evss =
               Some (Inr (update_models state_dict s ms, tr'))"
  using assms
proof (induction evss arbitrary: s tr)
  case Nil
  have "length ([] :: ('a \<times> int) list) = length ([] :: ('a option \<times> int) option list list)
        \<and> learner_updates state_dict minimum_episodes s tr [] =
            Some (Inr (update_models state_dict s [], tr))"
    by simp
  then show ?case by blast
next
  case (Cons evs evss)
  have one: "int (length (episodes tr)) < minimum_episodes
              \<or> (\<exists>pre m k rest. evs = pre @ Some (Some m, k) # rest
                    \<and> (\<forall>ev\<in>set pre. ev = None \<or> (\<exists>k'. ev = Some (None, k'))))"
    using Cons.prems(2) by auto
  from learner_update_answered [OF Cons.prems(1) one]
  obtain printed m k tr1 where
    step: "learner_update state_dict minimum_episodes s tr evs =
             Some (Inr (printed, update_model state_dict s m k, tr1))"
    and eps: "episodes tr1 = episodes tr"
    by blast
  let ?s1 = "update_model state_dict s m k"
  have inv1: "\<forall>era d. results ?s1 era = Some d \<longrightarrow>
                distinct (map fst d) \<and> 0 < sum_list (map snd d)"
    using Cons.prems(1) by (simp add: update_model_fields)
  have ans1: "int (length (episodes tr1)) < minimum_episodes
              \<or> (\<forall>evs\<in>set evss. \<exists>pre m k rest. evs = pre @ Some (Some m, k) # rest
                    \<and> (\<forall>ev\<in>set pre. ev = None \<or> (\<exists>k'. ev = Some (None, k'))))"
    using Cons.prems(2) unfolding eps by auto
  from Cons.IH [OF inv1 ans1]
  obtain ms tr' where len: "length ms = length evss"
    and run: "learner_updates state_dict minimum_episodes ?s1 tr1 evss =
                Some (Inr (update_models state_dict ?s1 ms, tr'))"
    by blast
  have "length ((m, k) # ms) = length (evs # evss)
        \<and> learner_updates state_dict minimum_episodes s tr (evs # evss) =
            Some (Inr (update_models state_dict s ((m, k) # ms), tr'))"
    using len run by (simp add: step)
  then show ?case by blast
qed

lemma learner_updates_run:
  assumes inv: "\<forall>era d. results s era = Some d \<longrightarrow>
                  distinct (map fst d) \<and> 0 < sum_list (map snd d)"
    and ans: "int (length (episodes tr)) < minimum_episodes
              \<or> (\<forall>evs\<in>set evss. \<exists>pre m k rest. evs = pre @ Some (Some m, k) # rest
                    \<and> (\<forall>ev\<in>set pre. ev = None \<or> (\<exists>k'. ev = Some (None, k'))))"
  shows "\<exists>ms tr'. length ms = length evss
           \<and> learner_updates state_dict minimum_episodes s tr evss =
               Some (Inr (update_models state_dict s ms, tr'))
           \<and> model_era (update_models state_dict s ms) = model_era s + int (length evss)
           \<and> (\<forall>i<length evss.
                 files (update_models state_dict s ms) (model_path (model_era s + 1 + int i))
                   = Some (state_dict (fst (ms ! i))))
           \<and> (\<forall>e\<le>model_era s.
                 files (update_models state_dict s ms) (model_path e) = files s (model_path e))"
proof -
  from learner_updates_answered [OF inv ans]
  obtain ms tr' where len: "length ms = length evss"
    and run: "learner_updates state_dict minimum_episodes s tr evss =
                Some (Inr (update_models state_dict s ms, tr'))"
    by blast
  let ?s' = "update_models state_dict s ms"
  have e1: "model_era ?s' = model_era s + int (length evss)"
    unfolding update_models_era len ..
  have e2: "\<forall>i<length evss. files ?s' (model_path (model_era s + 1 + int i))
              = Some (state_dict (fst (ms ! i)))"
  proof (intro allI impI)
    fix i assume "i < length evss"
    then have "i < length ms" by (simp only: len)
    then show "files ?s' (model_path (model_era s + 1 + int i)) = Some (state_dict (fst (ms ! i)))"
      by (rule update_models_writes)
  qed
  have e3: "\<forall>e\<le>model_era s. files ?s' (model_path e) = files s (model_path e)"
    by (intro allI impI) (rule update_models_keeps)
  from len run e1 e2 e3 show ?thesis
    by (intro exI conjI)
qed

text \<open>
  C7. Every call of \<open>update_model\<close> adds one to the model era and writes the new model's
  state dictionary to the file of the new era. A \<open>Learner.update\<close> whose win-rate print
  does not raise returns, having made exactly such a call, when the store is below
  \<open>minimum_episodes\<close> (at once) and when the training thread reports a model (after any
  polls without a report and any reports of no model); whenever it returns it has made
  such a call. So a run of successive answered updates (for a results table as
  \<open>feed_results\<close> builds it) returns and is a run of as many \<open>update_model\<close> calls; along
  such a run the era grows by one per update, at its end the file of each of its eras
  holds the model of that update, and the files of all earlier eras are untouched.
  Different eras have different paths.
\<close>

theorem model_era_increasing_persisted:
  "model_era (update_model state_dict s m k) = model_era s + 1
   \<and> files (update_model state_dict s m k) (model_path (model_era s + 1)) = Some (state_dict m)
   \<and> (\<forall>minimum_episodes tr evs printed s' tr'.
         learner_update state_dict minimum_episodes s tr evs = Some (Inr (printed, s', tr'))
           \<longrightarrow> (\<exists>m' k'. s' = update_model state_dict s m' k'))
   \<and> (\<forall>minimum_episodes tr evs printed.
         int (length (episodes tr)) < minimum_episodes
         \<and> win_rate_report (results s) (model_era s) = Inr printed
           \<longrightarrow> learner_update state_dict minimum_episodes s tr evs =
                 Some (Inr (printed, update_model state_dict s (model s) 0, tr)))
   \<and> (\<forall>minimum_episodes tr pre m' k' evs printed.
         \<not> int (length (episodes tr)) < minimum_episodes
         \<and> (\<forall>ev\<in>set pre. ev = None \<or> (\<exists>j. ev = Some (None, j)))
         \<and> win_rate_report (results s) (model_era s) = Inr printed
           \<longrightarrow> learner_update state_dict minimum_episodes s tr (pre @ Some (Some m', k') # evs) =
                 Some (Inr (printed, update_model state_dict s m' k',
                            tr\<lparr>update_flag := False, updated_model := (Some m', k')\<rparr>)))
   \<and> (\<forall>minimum_episodes tr evss.
         (\<forall>era d. results s era = Some d \<longrightarrow> distinct (map fst d) \<and> 0 < sum_list (map snd d))
         \<and> (int (length (episodes tr)) < minimum_episodes
              \<or> (\<forall>evs\<in>set evss. \<exists>pre m' k' rest. evs = pre @ Some (Some m', k') # rest
                    \<and> (\<forall>ev\<in>set pre. ev = None \<or> (\<exists>j. ev = Some (None, j)))))
           \<longrightarrow> (\<exists>ms' tr'. length ms' = length evss
                 \<and> learner_updates state_dict minimum_episodes s tr evss =
                     Some (Inr (update_models state_dict s ms', tr'))
                 \<and> model_era (update_models state_dict s ms') = model_era s + int (length evss)
                 \<and> (\<forall>i<length evss.
                       files (update_models state_dict s ms') (model_path (model_era s + 1 + int i))
                         = Some (state_dict (fst (ms' ! i))))
                 \<and> (\<forall>e\<le>model_era s.
                       files (update_models state_dict s ms') (model_path e)
                         = files s (model_path e))))
   \<and> model_era (update_models state_dict s ms) = model_era s + int (length ms)
   \<and> (\<forall>i<length ms.
         files (update_models state_dict s ms) (model_path (model_era s + 1 + int i))
           = Some (state_dict (fst (ms ! i))))
   \<and> (\<forall>e\<le>model_era s.
         files (update_models state_dict s ms) (model_path e) = files s (model_path e))
   \<and> (\<forall>a b. model_path a = model_path b \<longrightarrow> a = b)"
  apply (intro conjI)
  subgoal by (simp add: update_model_fields)
  subgoal by (simp add: update_model_fields)
  subgoal by (intro allI impI) (rule learner_update_is_update_model)
  subgoal by (intro allI impI, elim conjE) (rule learner_update_below_minimum)
  subgoal by (intro allI impI, elim conjE) (rule learner_update_reported)
  subgoal by (intro allI impI, elim conjE) (rule learner_updates_run)
  subgoal by (rule update_models_era)
  subgoal by (intro allI impI) (rule update_models_writes)
  subgoal by (intro allI impI) (rule update_models_keeps)
  subgoal by (simp add: model_path_inj)
  done

theorem model_era_increasing_persisted_witness:
  "\<not> int (length (episodes \<lparr>episodes = [''e1'', ''e2''], update_flag = False,
                           updated_model = (None :: nat option, 0), steps = 0\<rparr>)) < 2
   \<and> learner_updates id 2
        \<lparr>model_era = 0, model = 7 :: nat, results = Map.empty, files = Map.empty\<rparr>
        \<lparr>episodes = [''e1'', ''e2''], update_flag = False, updated_model = (None, 0), steps = 0\<rparr>
        [[None, Some (Some 8, 100)], [Some (None, 5), None, Some (Some 9, 200), None]]
      = Some (Inr (\<lparr>model_era = 2, model = 9, results = Map.empty,
                    files = [''models/1.pth'' \<mapsto> 8, ''models/2.pth'' \<mapsto> 9]\<rparr>,
                   \<lparr>episodes = [''e1'', ''e2''], update_flag = False,
                    updated_model = (Some 9, 200), steps = 0\<rparr>))"
proof -
  let ?s0 = "\<lparr>model_era = 0, model = 7 :: nat, results = Map.empty,
              files = (Map.empty :: string \<rightharpoonup> nat)\<rparr>"
  let ?tr = "\<lparr>episodes = [''e1'', ''e2''], update_flag = False,
              updated_model = (None :: nat option, 0 :: int), steps = 0 :: int\<rparr>"
  let ?evss = "[[None, Some (Some (8 :: nat), 100 :: int)],
                [Some (None, 5), None, Some (Some 9, 200), None]]"
  have h1: "\<not> int (length (episodes ?tr)) < 2" by simp
  have inv: "\<forall>era d. results ?s0 era = Some d \<longrightarrow>
               distinct (map fst d) \<and> 0 < sum_list (map snd d)"
    by simp
  have "[None, Some (Some (8 :: nat), 100 :: int)] = [None] @ Some (Some 8, 100) # []
        \<and> (\<forall>ev\<in>set [None :: (nat option \<times> int) option]. ev = None \<or> (\<exists>j. ev = Some (None, j)))"
    by simp
  then have a1: "\<exists>pre m' k' rest. [None, Some (Some (8 :: nat), 100 :: int)]
        = pre @ Some (Some m', k') # rest
        \<and> (\<forall>ev\<in>set pre. ev = None \<or> (\<exists>j. ev = Some (None, j)))"
    by blast
  have "[Some (None, 5), None, Some (Some (9 :: nat), 200 :: int), None]
          = [Some (None, 5), None] @ Some (Some 9, 200) # [None]
        \<and> (\<forall>ev\<in>set [Some (None :: nat option, 5 :: int), None].
              ev = None \<or> (\<exists>j. ev = Some (None, j)))"
    by simp
  then have a2: "\<exists>pre m' k' rest. [Some (None, 5), None, Some (Some (9 :: nat), 200 :: int), None]
        = pre @ Some (Some m', k') # rest
        \<and> (\<forall>ev\<in>set pre. ev = None \<or> (\<exists>j. ev = Some (None, j)))"
    by blast
  have ans: "\<forall>evs\<in>set ?evss. \<exists>pre m' k' rest. evs = pre @ Some (Some m', k') # rest
               \<and> (\<forall>ev\<in>set pre. ev = None \<or> (\<exists>j. ev = Some (None, j)))"
    using a1 a2 by simp
  note th = model_era_increasing_persisted [of id ?s0 8 100 "[]"]
  note runs = th [THEN conjunct2, THEN conjunct2, THEN conjunct2, THEN conjunct2,
      THEN conjunct2, THEN conjunct1, rule_format, of ?tr 2 ?evss]
  from runs inv ans obtain ms' tr' where
    "learner_updates id 2 ?s0 ?tr ?evss = Some (Inr (update_models id ?s0 ms', tr'))"
    "model_era (update_models id ?s0 ms') = model_era ?s0 + int (length ?evss)"
    by blast
  moreover have "learner_updates id 2 ?s0 ?tr ?evss
      = Some (Inr (\<lparr>model_era = 2, model = 9, results = Map.empty,
                    files = [''models/1.pth'' \<mapsto> 8, ''models/2.pth'' \<mapsto> 9]\<rparr>,
                   \<lparr>episodes = [''e1'', ''e2''], update_flag = False,
                    updated_model = (Some 9, 200), steps = 0\<rparr>))"
    by (simp add: learner_update_def win_rate_report_def trainer_update_def report_update_def
        recheck_update_def update_model_def Let_def model_path_def str_int_def str_nat.simps
        digit_char_def)
  ultimately show ?thesis
    using h1 by simp
qed

text \<open>
  C10. When the episode store holds fewer than \<open>minimum_episodes\<close> episodes (and the
  printing of the win rate does not raise), \<open>Trainer.update\<close> returns \<open>(None, 0)\<close> at
  once, whatever the training thread does (also with no event at all) and without
  changing the trainer; and \<open>Learner.update\<close> still returns a learner whose era is one
  higher, whose current model is unchanged, and whose file for the new era holds the state
  dictionary of that unchanged model.
\<close>

theorem update_below_minimum_advances_era:
  assumes "int (length (episodes tr)) < minimum_episodes"
    and "win_rate_report (results s) (model_era s) = Inr printed"
  shows "trainer_update minimum_episodes tr evs = Some ((None, 0), tr)
    \<and> learner_update state_dict minimum_episodes s tr evs =
        Some (Inr (printed,
                   s\<lparr>model_era := model_era s + 1,
                     files := (files s)(model_path (model_era s + 1) \<mapsto> state_dict (model s))\<rparr>,
                   tr))"
proof -
  have t: "trainer_update minimum_episodes tr evs = Some ((None, 0), tr)"
    using assms(1) by (rule trainer_update_below_minimum)
  have "update_model state_dict s (model s) 0 =
          s\<lparr>model_era := model_era s + 1,
            files := (files s)(model_path (model_era s + 1) \<mapsto> state_dict (model s))\<rparr>"
    by (simp add: update_model_def Let_def)
  then have "learner_update state_dict minimum_episodes s tr evs =
        Some (Inr (printed,
                   s\<lparr>model_era := model_era s + 1,
                     files := (files s)(model_path (model_era s + 1) \<mapsto> state_dict (model s))\<rparr>,
                   tr))"
    by (simp add: learner_update_def t assms(2))
  with t show ?thesis by (rule conjI)
qed

theorem update_below_minimum_advances_era_witness:
  "int (length (episodes \<lparr>episodes = [''e1'', ''e2''], update_flag = False,
                         updated_model = (None :: nat option, 0), steps = 0\<rparr>)) < 3
   \<and> learner_update id 3
        \<lparr>model_era = 0, model = 7 :: nat, results = Map.empty, files = Map.empty\<rparr>
        \<lparr>episodes = [''e1'', ''e2''], update_flag = False, updated_model = (None, 0), steps = 0\<rparr>
        []
      = Some (Inr (None,
                   \<lparr>model_era = 1, model = 7, results = Map.empty,
                    files = [''models/1.pth'' \<mapsto> 7]\<rparr>,
                   \<lparr>episodes = [''e1'', ''e2''], update_flag = False,
                    updated_model = (None, 0), steps = 0\<rparr>))"
proof -
  let ?s = "\<lparr>model_era = 0, model = 7 :: nat, results = Map.empty,
             files = (Map.empty :: string \<rightharpoonup> nat)\<rparr>"
  let ?tr = "\<lparr>episodes = [''e1'', ''e2''], update_flag = False,
              updated_model = (None :: nat option, 0 :: int), steps = 0 :: int\<rparr>"
  have h1: "int (length (episodes ?tr)) < 3" by simp
  have h2: "win_rate_report (results ?s) (model_era ?s) = Inr None"
    by (simp add: win_rate_report_def)
  have p1: "model_path 1 = ''models/1.pth''"
    by (simp add: model_path_def str_int_def str_nat.simps digit_char_def)
  from update_below_minimum_advances_era [OF h1 h2, of "[]" id]
  have "learner_update id 3 ?s ?tr [] =
        Some (Inr (None,
                   ?s\<lparr>model_era := model_era ?s + 1,
                     files := (files ?s)(model_path (model_era ?s + 1) \<mapsto> id (model ?s))\<rparr>,
                   ?tr))"
    by (rule conjunct2)
  then show ?thesis
    using h1 by (simp add: p1)
qed

text \<open>
  C3. A model-fetch for the current era returns the current model, but a fetch for an era
  with no file does not return the current model: it returns the new, untrained instance.
  Here the learner has made one update from era 0 (so only \<open>models/1.pth\<close> exists), the
  current model is 8 and a new instance is 0: the request for eras 1 and 0 is answered
  with 8 and 0.
\<close>

theorem server_model_missing_era_returns_fresh:
  "update_model id \<lparr>model_era = 0, model = 7 :: nat, results = Map.empty, files = Map.empty\<rparr> 8 100
     = \<lparr>model_era = 1, model = 8, results = Map.empty, files = [''models/1.pth'' \<mapsto> 8]\<rparr>
   \<and> server_model (0 :: nat) (\<lambda>fresh sd. Some sd)
        \<lparr>model_era = 1, model = 8, results = Map.empty, files = [''models/1.pth'' \<mapsto> 8]\<rparr>
        [1, 0]
      = [8, 0]"
  by (simp add: update_model_def Let_def server_model_def fetch_model_def model_path_def
      str_int_def str_nat.simps digit_char_def)

subsection \<open>Entry service\<close>

lemma entry_handshake_Suc:
  "entry_handshake mul rate (int (Suc n)) st = divide_worker mul rate (entry_handshake mul rate (int n) st)"
  unfolding entry_handshake_def nat_int by simp

lemma entry_handshake_inv:
  "case entry_handshake mul rate (int n) st of (gids, eids, st') \<Rightarrow>
     worker_cnt st' = worker_cnt st + n
     \<and> total_gids st' = total_gids st @ gids
     \<and> total_eids st' = total_eids st @ eids
     \<and> set gids \<union> set eids = {worker_cnt st ..< worker_cnt st + n}
     \<and> distinct (gids @ eids)"
proof (induction n)
  case 0
  show ?case by (simp add: entry_handshake_def)
next
  case (Suc n)
  obtain g e s' where run: "entry_handshake mul rate (int n) st = (g, e, s')"
    by (cases "entry_handshake mul rate (int n) st")
  with Suc have ih: "worker_cnt s' = worker_cnt st + n" "total_gids s' = total_gids st @ g"
    "total_eids s' = total_eids st @ e" "set g \<union> set e = {worker_cnt st ..< worker_cnt st + n}"
    "distinct (g @ e)"
    by simp_all
  have fresh: "worker_cnt st + n \<notin> set g" "worker_cnt st + n \<notin> set e"
    using ih(4) by auto
  have grow: "insert (worker_cnt st + n) {worker_cnt st ..< worker_cnt st + n}
                = {worker_cnt st ..< worker_cnt st + Suc n}"
    by auto
  show ?case
    unfolding entry_handshake_Suc run
    using ih fresh grow by (auto simp: divide_worker_def)
qed

lemma entry_handshake_role:
  "i < n \<Longrightarrow>
   (worker_cnt st + i \<in> set (fst (entry_handshake mul rate (int n) st))) =
   (case entry_handshake mul rate (int i) st of (gids, eids, st') \<Rightarrow>
      mul (real (length (total_gids st'))) rate < real_of_int (int (length (total_eids st')) - 1))"
proof (induction n)
  case 0
  then show ?case by simp
next
  case (Suc n)
  obtain g e s' where run: "entry_handshake mul rate (int n) st = (g, e, s')"
    by (cases "entry_handshake mul rate (int n) st")
  from entry_handshake_inv [where mul = mul and rate = rate and n = n and st = st] run
  have inv: "worker_cnt s' = worker_cnt st + n"
    "set g \<union> set e = {worker_cnt st ..< worker_cnt st + n}"
    by simp_all
  have fresh: "worker_cnt st + n \<notin> set g"
    using inv(2) by auto
  show ?case
  proof (cases "i < n")
    case True
    then have "worker_cnt st + i \<noteq> worker_cnt st + n" by simp
    then have "(worker_cnt st + i \<in> set (fst (entry_handshake mul rate (int (Suc n)) st)))
               = (worker_cnt st + i \<in> set g)"
      unfolding entry_handshake_Suc run by (simp add: divide_worker_def inv(1))
    also have "\<dots> = (worker_cnt st + i \<in> set (fst (entry_handshake mul rate (int n) st)))"
      by (simp add: run)
    finally show ?thesis
      using Suc.IH [OF True] by simp
  next
    case False
    with Suc.prems have i: "i = n" by simp
    show ?thesis
      unfolding i entry_handshake_Suc run
      using fresh by (simp add: divide_worker_def inv(1))
  qed
qed

text \<open>
  C9 (as amended). In a handshake for \<open>num_process\<close> slots, slot \<open>i\<close> gets the id
  \<open>worker_cnt + i\<close>, and it gets the generator role if and only if, for the totals after
  the earlier slots, the product of the number of generators and the rate, as Python
  computes it (\<open>mul\<close>: rounded to a double for a float rate), is less than the number
  of evaluators minus one; otherwise it gets the evaluator role. The ids of the handshake are
  the next \<open>num_process\<close> consecutive numbers, each issued once; the ids issued before
  keep their role, and no id is ever issued twice.
\<close>

theorem entry_roles_and_ids:
  assumes "entry_handshake mul eworker_rate num_process st = (gids, eids, st')"
    and "\<forall>w\<in>set (total_gids st @ total_eids st). w < worker_cnt st"
    and "distinct (total_gids st @ total_eids st)"
  shows "worker_cnt st' = worker_cnt st + nat num_process
    \<and> total_gids st' = total_gids st @ gids
    \<and> total_eids st' = total_eids st @ eids
    \<and> set gids \<union> set eids = {worker_cnt st ..< worker_cnt st + nat num_process}
    \<and> distinct (gids @ eids)
    \<and> (\<forall>w\<in>set (total_gids st' @ total_eids st'). w < worker_cnt st')
    \<and> distinct (total_gids st' @ total_eids st')
    \<and> (\<forall>i<nat num_process.
          (worker_cnt st + i \<in> set gids) =
          (case entry_handshake mul eworker_rate (int i) st of (gids_i, eids_i, st_i) \<Rightarrow>
             mul (real (length (total_gids st_i))) eworker_rate
               < real (length (total_eids st_i)) - 1))"
proof -
  have run: "entry_handshake mul eworker_rate (int (nat num_process)) st = (gids, eids, st')"
    using assms(1) unfolding entry_handshake_def nat_int .
  from entry_handshake_inv [where mul = mul and rate = eworker_rate and n = "nat num_process" and st = st] run
  have inv: "worker_cnt st' = worker_cnt st + nat num_process"
    "total_gids st' = total_gids st @ gids" "total_eids st' = total_eids st @ eids"
    "set gids \<union> set eids = {worker_cnt st ..< worker_cnt st + nat num_process}"
    "distinct (gids @ eids)"
    by simp_all
  have below: "\<forall>w\<in>set (total_gids st' @ total_eids st'). w < worker_cnt st'"
  proof
    fix w assume "w \<in> set (total_gids st' @ total_eids st')"
    then have "w \<in> set (total_gids st @ total_eids st) \<or> w \<in> set gids \<union> set eids"
      by (auto simp: inv(2,3))
    then show "w < worker_cnt st'"
    proof
      assume "w \<in> set (total_gids st @ total_eids st)"
      with assms(2) have "w < worker_cnt st" by blast
      then show ?thesis by (simp add: inv(1))
    next
      assume "w \<in> set gids \<union> set eids"
      then show ?thesis unfolding inv(4) by (simp add: inv(1))
    qed
  qed
  have new_old: "set (gids @ eids) \<inter> set (total_gids st @ total_eids st) = {}"
    using inv(4) assms(2) by fastforce
  have dist: "distinct (total_gids st' @ total_eids st')"
    using inv(2,3,5) assms(3) new_old by auto
  have role: "\<forall>i<nat num_process.
          (worker_cnt st + i \<in> set gids) =
          (case entry_handshake mul eworker_rate (int i) st of (gids_i, eids_i, st_i) \<Rightarrow>
             mul (real (length (total_gids st_i))) eworker_rate
               < real (length (total_eids st_i)) - 1)"
  proof (intro allI impI)
    fix i assume "i < nat num_process"
    from entry_handshake_role [OF this, where st = st and rate = eworker_rate and mul = mul]
    show "(worker_cnt st + i \<in> set gids) =
          (case entry_handshake mul eworker_rate (int i) st of (gids_i, eids_i, st_i) \<Rightarrow>
             mul (real (length (total_gids st_i))) eworker_rate
               < real (length (total_eids st_i)) - 1)"
      using run by (simp add: split_def)
  qed
  from inv below dist role show ?thesis
    by (intro conjI)
qed

theorem entry_roles_and_ids_witness:
  "entry_handshake (*) 1 4 entry_init
       = ([2], [0, 1, 3], \<lparr>total_gids = [2], total_eids = [0, 1, 3], worker_cnt = 4\<rparr>)
   \<and> distinct (total_gids entry_init @ total_eids entry_init)
   \<and> worker_cnt \<lparr>total_gids = [2], total_eids = [0, 1, 3], worker_cnt = 4\<rparr>
       = worker_cnt entry_init + nat 4"
proof -
  have run: "entry_handshake (*) 1 4 entry_init
       = ([2], [0, 1, 3], \<lparr>total_gids = [2], total_eids = [0, 1, 3], worker_cnt = 4\<rparr>)"
    by (simp add: entry_handshake_def entry_init_def divide_worker_def eval_nat_numeral)
  have h: "\<forall>w\<in>set (total_gids entry_init @ total_eids entry_init). w < worker_cnt entry_init"
    "distinct (total_gids entry_init @ total_eids entry_init)"
    by (simp_all add: entry_init_def)
  from entry_roles_and_ids [OF run h]
  have "worker_cnt \<lparr>total_gids = [2], total_eids = [0, 1, 3], worker_cnt = 4\<rparr>
       = worker_cnt entry_init + nat 4"
    by (rule conjunct1)
  with run h(2) show ?thesis
    by (intro conjI)
qed

text \<open>
  The rule "generator iff evaluators / generators exceeds the rate" fails at rate 1 on the
  fourth slot of the first handshake: after three slots there are two evaluators and one
  generator, the ratio 2 exceeds 1, and the slot (id 3) is made an evaluator. At rate 1
  the products \<open>0 * 1\<close> and \<open>1 * 1\<close> of the run are exact in Python, so the product is
  the multiplication of numbers.
\<close>

theorem entry_ratio_rule_counterexample:
  "entry_handshake (*) 1 3 entry_init
       = ([2], [0, 1], \<lparr>total_gids = [2], total_eids = [0, 1], worker_cnt = 3\<rparr>)
   \<and> real (length [0, 1 :: nat]) / real (length [2 :: nat]) > 1
   \<and> entry_handshake (*) 1 4 entry_init
       = ([2], [0, 1, 3], \<lparr>total_gids = [2], total_eids = [0, 1, 3], worker_cnt = 4\<rparr>)
   \<and> 3 \<notin> set [2 :: nat] \<and> 3 \<in> set [0, 1, 3 :: nat]"
  by (simp add: entry_handshake_def entry_init_def divide_worker_def eval_nat_numeral)

end
